theory Spec2Isabelle
  imports Complex_Main "HOL-Library.Signed_Division" "HOL-Library.Sublist" "HOL-Library.Word"
begin

unbundle bit_operations_syntax

section \<open>Shared data model\<close>

text \<open>
  JavaScript numbers are modelled as reals (integers where the source only ever stores
  indices or counters); \<open>undefined\<close> and \<open>null\<close> become \<open>None\<close>. An access through
  \<open>undefined\<close>, which raises a TypeError in the source, is the value \<open>Inl TypeError\<close>.
\<close>

datatype exn = TypeError

text \<open>\<open>xs[i]\<close> on a JavaScript array: \<open>undefined\<close> outside the array.\<close>

definition nth_opt :: "'a list \<Rightarrow> int \<Rightarrow> 'a option" where
  "nth_opt xs i = (if 0 \<le> i \<and> i < int (length xs) then Some (xs ! nat i) else None)"

text \<open>The sequence number of a fragment is a number or the string \<open>'initSegment'\<close>.\<close>

datatype seqnum = SN int | InitSegmentSN

record fragment =
  sn :: seqnum
  cc :: int
  frag_level :: int
  frag_type :: string
  start :: real
  duration :: real
  encrypted :: bool
  frag_data :: "nat list option"

record level_details =
  live :: bool
  PTSKnown :: bool
  startSN :: int
  endSN :: int
  targetduration :: real
  averagetargetduration :: "real option"
  fragments :: "fragment list"
  initSegment :: "fragment option"

text \<open>The media element (or a source buffer): its clock and its buffered time ranges.\<close>

record media_element =
  currentTime :: real
  buffered :: "(real \<times> real) list"
  seeking :: bool

text \<open>
  Modelled from the spec: \<open>BufferHelper.isBuffered\<close> (the buffer helper is not among the
  sources). A position is buffered when one of the sink's buffered ranges contains it.
\<close>

definition isBuffered :: "media_element \<Rightarrow> real \<Rightarrow> bool" where
  "isBuffered m pos = list_ex (\<lambda>(s, e). s \<le> pos \<and> pos \<le> e) (buffered m)"

datatype error_type = NETWORK_ERROR | MEDIA_ERROR | MUX_ERROR | OTHER_ERROR

datatype error_details =
    FRAG_LOAD_ERROR | FRAG_LOAD_TIMEOUT | FRAG_LOOP_LOADING_ERROR
  | KEY_LOAD_ERROR | KEY_LOAD_TIMEOUT
  | LEVEL_LOAD_ERROR | LEVEL_LOAD_TIMEOUT
  | AUDIO_TRACK_LOAD_ERROR | AUDIO_TRACK_LOAD_TIMEOUT
  | REMUX_ALLOC_ERROR | BUFFER_FULL_ERROR
  | LEVEL_SWITCH_ERROR | MANIFEST_INCOMPATIBLE_CODECS_ERROR
  | OTHER_DETAILS

text \<open>The payload of an ERROR event, with the fields the two controllers read or write.\<close>

record error_data =
  err_type :: error_type
  err_details :: error_details
  fatal :: bool
  err_frag :: "fragment option"
  context_level :: "int option"
  err_level :: "int option"
  parent :: "string option"
  levelRetry :: bool
  reason :: string

section \<open>Level Controller\<close>

text \<open>A level as the manifest delivers it: one URL, no error bookkeeping yet.\<close>

record manifest_level =
  m_bitrate :: int
  m_url :: string
  m_audioCodec :: "string option"
  m_videoCodec :: "string option"
  m_attrs_AUDIO :: bool

text \<open>A level as the controller keeps it after \<open>onManifestLoaded\<close>.\<close>

record level =
  bitrate :: int
  url :: "string list"
  urlId :: int
  loadError :: nat
  fragmentError :: bool
  details :: "level_details option"
  audioCodec :: "string option"
  videoCodec :: "string option"
  attrs_AUDIO :: bool
  level_prop :: "int option"

datatype lc_event =
    LEVEL_SWITCH level
  | LEVEL_SWITCHING level
  | LEVEL_LOADING "string option" int int
  | LC_ERROR error_data
  | MANIFEST_PARSED "level list" "int option" bool bool

text \<open>
  The controller's own fields, and those of the \<open>hls\<close> object it reads and writes
  (\<open>nextAutoLevel\<close>, \<open>media\<close>, \<open>config.levelLoadingRetryDelay\<close>, \<open>config.startLevel\<close>).
  \<open>timer\<close> holds the delay of the armed one-shot timer; \<open>triggered\<close> is the sequence of
  events handed to \<open>hls.trigger\<close>, oldest first.
\<close>

record level_controller =
  lc_levels :: "level list option"
  lc_level :: "int option"
  lc_manualLevel :: int
  lc_firstLevel :: "int option"
  lc_startLevel :: "int option"
  timer :: "real option"
  canload :: bool
  nextAutoLevel :: "int option"
  hls_media :: "media_element option"
  levelLoadingRetryDelay :: real
  config_startLevel :: "int option"
  triggered :: "lc_event list"

definition trigger :: "lc_event \<Rightarrow> level_controller \<Rightarrow> level_controller" where
  "trigger e c = c\<lparr>triggered := triggered c @ [e]\<rparr>"

definition lc_init :: "real \<Rightarrow> int option \<Rightarrow> level_controller" where
  "lc_init retryDelay cfgStart =
     \<lparr>lc_levels = None, lc_level = None, lc_manualLevel = -1, lc_firstLevel = None,
      lc_startLevel = None, timer = None, canload = False, nextAutoLevel = None,
      hls_media = None, levelLoadingRetryDelay = retryDelay, config_startLevel = cfgStart,
      triggered = []\<rparr>"

definition cleanTimer :: "level_controller \<Rightarrow> level_controller" where
  "cleanTimer c = (if timer c \<noteq> None then c\<lparr>timer := None\<rparr> else c)"

definition destroy :: "level_controller \<Rightarrow> level_controller" where
  "destroy c = (cleanTimer c)\<lparr>lc_manualLevel := -1\<rparr>"

definition tick :: "level_controller \<Rightarrow> level_controller" where
  "tick c =
     (case lc_level c of
        None \<Rightarrow> c
      | Some levelId \<Rightarrow>
          if canload c then
            (case lc_levels c of
               None \<Rightarrow> c
             | Some levels \<Rightarrow>
                 (case nth_opt levels levelId of
                    None \<Rightarrow> c
                  | Some lv \<Rightarrow>
                      trigger (LEVEL_LOADING (nth_opt (url lv) (urlId lv)) levelId (urlId lv)) c))
          else c)"

definition startLoad_level :: "level \<Rightarrow> level" where
  "startLoad_level lv =
     (let lv1 = lv\<lparr>loadError := 0\<rparr>
      in case details lv1 of
           Some d \<Rightarrow> if live d then lv1\<lparr>details := None\<rparr> else lv1
         | None \<Rightarrow> lv1)"

definition startLoad :: "level_controller \<Rightarrow> level_controller" where
  "startLoad c =
     (let c1 = c\<lparr>canload := True\<rparr>;
          c2 = (case lc_levels c1 of
                  Some levels \<Rightarrow> c1\<lparr>lc_levels := Some (map startLoad_level levels)\<rparr>
                | None \<Rightarrow> c1)
      in if timer c2 \<noteq> None then tick c2 else c2)"

definition stopLoad :: "level_controller \<Rightarrow> level_controller" where
  "stopLoad c = c\<lparr>canload := False\<rparr>"

subsection \<open>onManifestLoaded\<close>

text \<open>
  \<open>isCodecSupportedInMp4\<close> asks the browser and \<open>chromeOrFirefox\<close> reads the user agent:
  both are parameters. \<open>levelSet\<close> maps a bitrate to the level first seen with it, here the
  position of that level in \<open>levels\<close> (the source shares the object).
\<close>

definition truthy_str :: "string option \<Rightarrow> bool" where
  "truthy_str s = (case s of None \<Rightarrow> False | Some t \<Rightarrow> t \<noteq> [])"

record manifest_data =
  md_levels :: "manifest_level list"
  md_audioTracks :: "string option list option"

record regroup_acc =
  acc_levels :: "level list"
  acc_levelSet :: "int \<Rightarrow> nat option"
  acc_videoCodecFound :: bool
  acc_audioCodecFound :: bool

definition regroup_step :: "bool \<Rightarrow> regroup_acc \<Rightarrow> manifest_level \<Rightarrow> regroup_acc" where
  "regroup_step chromeOrFirefox a ml =
     (let vf = (acc_videoCodecFound a \<or> truthy_str (m_videoCodec ml));
          af = (acc_audioCodecFound a \<or> truthy_str (m_audioCodec ml) \<or> m_attrs_AUDIO ml);
          ac = (case m_audioCodec ml of
                  None \<Rightarrow> None
                | Some codec \<Rightarrow>
                    if chromeOrFirefox \<and> codec \<noteq> [] \<and> sublist ''mp4a.40.34'' codec
                    then None else Some codec);
          a1 = a\<lparr>acc_videoCodecFound := vf, acc_audioCodecFound := af\<rparr>
      in case acc_levelSet a (m_bitrate ml) of
           None \<Rightarrow>
             a1\<lparr>acc_levels := acc_levels a @
                    [\<lparr>bitrate = m_bitrate ml, url = [m_url ml], urlId = 0, loadError = 0,
                      fragmentError = False, details = None, audioCodec = ac,
                      videoCodec = m_videoCodec ml, attrs_AUDIO = m_attrs_AUDIO ml,
                      level_prop = None\<rparr>],
                acc_levelSet := (acc_levelSet a)(m_bitrate ml \<mapsto> length (acc_levels a))\<rparr>
         | Some i \<Rightarrow>
             a1\<lparr>acc_levels :=
                   (acc_levels a)[i := (acc_levels a ! i)\<lparr>url := url (acc_levels a ! i) @ [m_url ml]\<rparr>]\<rparr>)"

definition regroup :: "bool \<Rightarrow> manifest_level list \<Rightarrow> regroup_acc" where
  "regroup chromeOrFirefox mls =
     foldl (regroup_step chromeOrFirefox)
       \<lparr>acc_levels = [], acc_levelSet = (\<lambda>_. None), acc_videoCodecFound = False,
        acc_audioCodecFound = False\<rparr> mls"

fun first_index :: "('a \<Rightarrow> bool) \<Rightarrow> 'a list \<Rightarrow> nat \<Rightarrow> nat option" where
  "first_index P [] i = None"
| "first_index P (x # xs) i = (if P x then Some i else first_index P xs (Suc i))"

definition codecs_supported :: "(string \<Rightarrow> string option \<Rightarrow> bool) \<Rightarrow> level \<Rightarrow> bool" where
  "codecs_supported isCodecSupportedInMp4 lv =
     ((\<not> truthy_str (audioCodec lv)
         \<or> (case audioCodec lv of Some c \<Rightarrow> isCodecSupportedInMp4 c None | None \<Rightarrow> True))
      \<and> (\<not> truthy_str (videoCodec lv)
         \<or> (case videoCodec lv of Some c \<Rightarrow> isCodecSupportedInMp4 c None | None \<Rightarrow> True)))"

definition onManifestLoaded ::
  "(string \<Rightarrow> string option \<Rightarrow> bool) \<Rightarrow> bool \<Rightarrow> manifest_data \<Rightarrow> level_controller
     \<Rightarrow> level_controller" where
  "onManifestLoaded isCodecSupportedInMp4 chromeOrFirefox data c =
     (let a = regroup chromeOrFirefox (md_levels data);
          videoCodecFound = acc_videoCodecFound a;
          audioCodecFound = acc_audioCodecFound a;
          levels1 = (if videoCodecFound \<and> audioCodecFound
                     then filter (\<lambda>lv. truthy_str (videoCodec lv)) (acc_levels a)
                     else acc_levels a);
          levels2 = filter (codecs_supported isCodecSupportedInMp4) levels1;
          audioTracks =
            (case md_audioTracks data of
               None \<Rightarrow> []
             | Some ts \<Rightarrow>
                 filter (\<lambda>t. \<not> truthy_str t
                     \<or> (case t of Some codec \<Rightarrow> isCodecSupportedInMp4 codec (Some ''audio'')
                         | None \<Rightarrow> True)) ts)
      in case levels2 of
           [] \<Rightarrow>
             trigger (LC_ERROR
               \<lparr>err_type = MEDIA_ERROR, err_details = MANIFEST_INCOMPATIBLE_CODECS_ERROR,
                fatal = True, err_frag = None, context_level = None, err_level = None,
                parent = None, levelRetry = False,
                reason = ''no level with compatible codecs found in manifest''\<rparr>) c
         | l0 # _ \<Rightarrow>
             (let bitrateStart = bitrate l0;
                  levels = sort_key bitrate levels2;
                  c1 = c\<lparr>lc_levels := Some levels\<rparr>;
                  c2 = (case first_index (\<lambda>lv. bitrate lv = bitrateStart) levels 0 of
                          Some i \<Rightarrow> c1\<lparr>lc_firstLevel := Some (int i)\<rparr>
                        | None \<Rightarrow> c1)
              in trigger (MANIFEST_PARSED levels (lc_firstLevel c2) audioCodecFound
                    videoCodecFound) c2))"

subsection \<open>Level selection\<close>

definition invalid_level_idx :: "int \<Rightarrow> error_data" where
  "invalid_level_idx newLevel =
     \<lparr>err_type = OTHER_ERROR, err_details = LEVEL_SWITCH_ERROR, fatal = False,
      err_frag = None, context_level = None, err_level = Some newLevel, parent = None,
      levelRetry = False, reason = ''invalid level idx''\<rparr>"

definition setLevelInternal :: "int \<Rightarrow> level_controller \<Rightarrow> exn + level_controller" where
  "setLevelInternal newLevel c =
     (case lc_levels c of
        None \<Rightarrow> Inl TypeError
      | Some levels \<Rightarrow>
          if 0 \<le> newLevel \<and> newLevel < int (length levels) then
            (let c1 = cleanTimer c;
                 c2 = (if lc_level c1 \<noteq> Some newLevel then
                         (let levelProperties = (levels ! nat newLevel)\<lparr>level_prop := Some newLevel\<rparr>
                          in trigger (LEVEL_SWITCHING levelProperties)
                               (trigger (LEVEL_SWITCH levelProperties)
                                  (c1\<lparr>lc_level := Some newLevel,
                                      lc_levels := Some (levels[nat newLevel := levelProperties])\<rparr>)))
                       else c1);
                 lv = levels ! nat newLevel;
                 needLoad = (case details lv of None \<Rightarrow> True | Some levelDetails \<Rightarrow> live levelDetails)
             in if needLoad
                then Inr (trigger (LEVEL_LOADING (nth_opt (url lv) (urlId lv)) newLevel (urlId lv)) c2)
                else Inr c2)
          else Inr (trigger (LC_ERROR (invalid_level_idx newLevel)) c))"

text \<open>The setter of the \<open>level\<close> property.\<close>

definition set_level :: "int \<Rightarrow> level_controller \<Rightarrow> exn + level_controller" where
  "set_level newLevel c =
     (case lc_levels c of
        None \<Rightarrow> Inr c
      | Some levels \<Rightarrow>
          if int (length levels) > newLevel then
            (if lc_level c \<noteq> Some newLevel then setLevelInternal newLevel c
             else (case nth_opt levels newLevel of
                     None \<Rightarrow> Inl TypeError
                   | Some lv \<Rightarrow> if details lv = None then setLevelInternal newLevel c else Inr c))
          else Inr c)"

definition set_manualLevel :: "int \<Rightarrow> level_controller \<Rightarrow> exn + level_controller" where
  "set_manualLevel newLevel c =
     (let c1 = c\<lparr>lc_manualLevel := newLevel\<rparr>;
          c2 = (if lc_startLevel c1 = None then c1\<lparr>lc_startLevel := Some newLevel\<rparr> else c1)
      in if newLevel \<noteq> -1 then set_level newLevel c2 else Inr c2)"

definition set_firstLevel :: "int \<Rightarrow> level_controller \<Rightarrow> level_controller" where
  "set_firstLevel newLevel c = c\<lparr>lc_firstLevel := Some newLevel\<rparr>"

definition get_startLevel :: "level_controller \<Rightarrow> int option" where
  "get_startLevel c =
     (case lc_startLevel c of
        None \<Rightarrow> (case config_startLevel c of Some l \<Rightarrow> Some l | None \<Rightarrow> lc_firstLevel c)
      | Some l \<Rightarrow> Some l)"

definition set_startLevel :: "int \<Rightarrow> level_controller \<Rightarrow> level_controller" where
  "set_startLevel newLevel c = c\<lparr>lc_startLevel := Some newLevel\<rparr>"

definition get_nextLoadLevel :: "level_controller \<Rightarrow> int option" where
  "get_nextLoadLevel c =
     (if lc_manualLevel c \<noteq> -1 then Some (lc_manualLevel c) else nextAutoLevel c)"

definition set_nextLoadLevel :: "int \<Rightarrow> level_controller \<Rightarrow> exn + level_controller" where
  "set_nextLoadLevel nextLevel c =
     (case set_level nextLevel c of
        Inl e \<Rightarrow> Inl e
      | Inr c1 \<Rightarrow>
          Inr (if lc_manualLevel c1 = -1 then c1\<lparr>nextAutoLevel := Some nextLevel\<rparr> else c1))"

subsection \<open>Error recovery\<close>

text \<open>
  The \<open>switch\<close> on \<open>data.details\<close>: the index of the level the error is about, whether it
  is a level error and whether it is a fragment error. Reading \<open>data.frag.level\<close> of an
  error without fragment raises.
\<close>

definition error_levelIndex :: "error_data \<Rightarrow> exn + (int option \<times> bool \<times> bool)" where
  "error_levelIndex data =
     (if err_details data \<in> {FRAG_LOAD_ERROR, FRAG_LOAD_TIMEOUT, FRAG_LOOP_LOADING_ERROR,
                              KEY_LOAD_ERROR, KEY_LOAD_TIMEOUT} then
        (case err_frag data of
           None \<Rightarrow> Inl TypeError
         | Some f \<Rightarrow> Inr (Some (frag_level f), False, True))
      else if err_details data \<in> {LEVEL_LOAD_ERROR, LEVEL_LOAD_TIMEOUT} then
        Inr (context_level data, True, False)
      else if err_details data = REMUX_ALLOC_ERROR then
        Inr (err_level data, False, False)
      else Inr (None, False, False))"

definition lc_mediaBuffered :: "level_controller \<Rightarrow> bool" where
  "lc_mediaBuffered c =
     (case hls_media c of
        None \<Rightarrow> False
      | Some media \<Rightarrow>
          isBuffered media (currentTime media) \<and> isBuffered media (currentTime media + 0.5))"

definition onError :: "error_data \<Rightarrow> level_controller \<Rightarrow> exn + (level_controller \<times> error_data)" where
  "onError data c =
     (if fatal data then
        Inr (if err_type data = NETWORK_ERROR then cleanTimer c else c, data)
      else
        (case error_levelIndex data of
           Inl e \<Rightarrow> Inl e
         | Inr (None, levelError, fragErr) \<Rightarrow> Inr (c, data)
         | Inr (Some levelIndex, levelError, fragErr) \<Rightarrow>
             (case lc_levels c of
                None \<Rightarrow> Inl TypeError
              | Some levels \<Rightarrow>
                  (case nth_opt levels levelIndex of
                     None \<Rightarrow> Inl TypeError
                   | Some lv0 \<Rightarrow>
                       (let lv = lv0\<lparr>loadError := loadError lv0 + 1, fragmentError := fragErr\<rparr>;
                            redundantLevels = int (length (url lv))
                        in if redundantLevels > 1 \<and> int (loadError lv) < redundantLevels then
                             Inr (c\<lparr>lc_levels := Some (levels[nat levelIndex :=
                                      lv\<lparr>urlId := (urlId lv + 1) smod redundantLevels,
                                         details := None\<rparr>])\<rparr>, data)
                           else
                             (let c1 = c\<lparr>lc_levels := Some (levels[nat levelIndex := lv])\<rparr>
                              in if lc_manualLevel c = -1 \<and> levelIndex \<noteq> 0 then
                                   Inr (c1\<lparr>nextAutoLevel := Some (max 0 (levelIndex - 1))\<rparr>, data)
                                 else if (case details lv of Some d \<Rightarrow> live d | None \<Rightarrow> False) then
                                   Inr (if levelError then c1\<lparr>lc_level := None\<rparr> else c1, data)
                                 else if levelError then
                                   (if lc_mediaBuffered c then
                                      Inr (c1\<lparr>timer := Some (levelLoadingRetryDelay c)\<rparr>,
                                           data\<lparr>levelRetry := True\<rparr>)
                                    else
                                      Inr (cleanTimer (c1\<lparr>lc_level := None\<rparr>),
                                           data\<lparr>fatal := True\<rparr>))
                                 else Inr (c1, data)))))))"

subsection \<open>Successful loads\<close>

definition onFragLoaded :: "fragment option \<Rightarrow> level_controller \<Rightarrow> exn + level_controller" where
  "onFragLoaded frag c =
     (case frag of
        None \<Rightarrow> Inr c
      | Some f \<Rightarrow>
          if frag_type f = ''main'' then
            (case lc_levels c of
               None \<Rightarrow> Inl TypeError
             | Some levels \<Rightarrow>
                 (case nth_opt levels (frag_level f) of
                    None \<Rightarrow> Inr c
                  | Some lv \<Rightarrow>
                      Inr (c\<lparr>lc_levels := Some (levels[nat (frag_level f) :=
                               lv\<lparr>fragmentError := False, loadError := 0\<rparr>])\<rparr>)))
          else Inr c)"

text \<open>\<open>Math.round\<close>: the nearest integer, a tie going up.\<close>

definition Math_round :: "real \<Rightarrow> real" where
  "Math_round x = of_int \<lfloor>x + 1 / 2\<rfloor>"

record level_loaded_data =
  ll_level :: int
  ll_details :: level_details
  ll_trequest :: real

text \<open>
  The interval with which \<open>onLevelLoaded\<close> arms the reload timer of a live playlist;
  \<open>now\<close> is the value of \<open>performance.now()\<close>.
\<close>

definition reloadInterval :: "level_details option \<Rightarrow> level_loaded_data \<Rightarrow> real \<Rightarrow> real" where
  "reloadInterval curDetails data now =
     (let newDetails = ll_details data;
          r0 = 1000 * (case averagetargetduration newDetails of
                         Some a \<Rightarrow> if a \<noteq> 0 then a else targetduration newDetails
                       | None \<Rightarrow> targetduration newDetails);
          r1 = (case curDetails of
                  Some cur \<Rightarrow> if endSN newDetails = endSN cur then r0 / 2 else r0
                | None \<Rightarrow> r0);
          r2 = r1 - (now - ll_trequest data)
      in max 1000 (Math_round r2))"

definition onLevelLoaded :: "level_loaded_data \<Rightarrow> real \<Rightarrow> level_controller \<Rightarrow> exn + level_controller" where
  "onLevelLoaded data now c =
     (if lc_level c = Some (ll_level data) then
        (case lc_levels c of
           None \<Rightarrow> Inl TypeError
         | Some levels \<Rightarrow>
             (case nth_opt levels (ll_level data) of
                None \<Rightarrow> Inl TypeError
              | Some curLevel0 \<Rightarrow>
                  (let curLevel = (if fragmentError curLevel0 = False
                                   then curLevel0\<lparr>loadError := 0\<rparr> else curLevel0);
                       c1 = c\<lparr>lc_levels := Some (levels[nat (ll_level data) := curLevel])\<rparr>
                   in if live (ll_details data)
                      then Inr (c1\<lparr>timer := Some (reloadInterval (details curLevel) data now)\<rparr>)
                      else Inr (cleanTimer c1))))
      else Inr c)"

fun remove_index :: "nat \<Rightarrow> 'a list \<Rightarrow> 'a list" where
  "remove_index i [] = []"
| "remove_index 0 (x # xs) = xs"
| "remove_index (Suc i) (x # xs) = x # remove_index i xs"

text \<open>\<open>levels.filter((level, index) => index !== data.level)\<close>.\<close>

definition onLevelRemoved :: "int \<Rightarrow> level_controller \<Rightarrow> exn + level_controller" where
  "onLevelRemoved removed c =
     (case lc_levels c of
        None \<Rightarrow> Inl TypeError
      | Some levels \<Rightarrow>
          Inr (c\<lparr>lc_levels := Some (if 0 \<le> removed then remove_index (nat removed) levels
                                     else levels)\<rparr>))"

subsection \<open>Reachable states of the Level Controller\<close>

text \<open>
  Everything that can happen to the controller: the events it subscribes to, its public
  setters and methods, the reload timer firing, the \<open>hls\<close> object changing
  \<open>nextAutoLevel\<close> or \<open>media\<close> from outside, and the stream controller storing a
  loaded playlist in \<open>level.details\<close>. No handler mutates the controller before it
  raises, so a call that raises leaves the state where it was.
\<close>

datatype lc_op =
    ManifestLoaded "string \<Rightarrow> string option \<Rightarrow> bool" bool manifest_data
  | LevelLoaded level_loaded_data real
  | FragLoaded "fragment option"
  | Error error_data
  | LevelRemoved int
  | SetLevel int
  | SetManualLevel int
  | SetFirstLevel int
  | SetStartLevel int
  | SetNextLoadLevel int
  | StartLoad
  | StopLoad
  | TimerFires
  | Destroy
  | HlsChanged "int option" "media_element option"
  | DetailsStored int level_details

fun lc_step :: "lc_op \<Rightarrow> level_controller \<Rightarrow> exn + level_controller" where
  "lc_step (ManifestLoaded supported cf data) c = Inr (onManifestLoaded supported cf data c)"
| "lc_step (LevelLoaded data now) c = onLevelLoaded data now c"
| "lc_step (FragLoaded frag) c = onFragLoaded frag c"
| "lc_step (Error data) c = map_sum id fst (onError data c)"
| "lc_step (LevelRemoved i) c = onLevelRemoved i c"
| "lc_step (SetLevel l) c = set_level l c"
| "lc_step (SetManualLevel l) c = set_manualLevel l c"
| "lc_step (SetFirstLevel l) c = Inr (set_firstLevel l c)"
| "lc_step (SetStartLevel l) c = Inr (set_startLevel l c)"
| "lc_step (SetNextLoadLevel l) c = set_nextLoadLevel l c"
| "lc_step StartLoad c = Inr (startLoad c)"
| "lc_step StopLoad c = Inr (stopLoad c)"
| "lc_step TimerFires c = Inr (if timer c \<noteq> None then tick c else c)"
| "lc_step Destroy c = Inr (destroy c)"
| "lc_step (HlsChanged nal m) c = Inr (c\<lparr>nextAutoLevel := nal, hls_media := m\<rparr>)"
| "lc_step (DetailsStored i d) c =
     Inr (case lc_levels c of
            None \<Rightarrow> c
          | Some levels \<Rightarrow>
              (case nth_opt levels i of
                 None \<Rightarrow> c
               | Some lv \<Rightarrow> c\<lparr>lc_levels := Some (levels[nat i := lv\<lparr>details := Some d\<rparr>])\<rparr>))"

inductive reachable :: "level_controller \<Rightarrow> bool" where
  reachable_init: "reachable (lc_init retryDelay cfgStart)"
| reachable_step: "reachable c \<Longrightarrow> lc_step op c = Inr c' \<Longrightarrow> reachable c'"

text \<open>The events triggered between two states of the controller.\<close>

definition new_events :: "level_controller \<Rightarrow> level_controller \<Rightarrow> lc_event list" where
  "new_events c c' = drop (length (triggered c)) (triggered c')"

fun is_LEVEL_LOADING :: "lc_event \<Rightarrow> bool" where
  "is_LEVEL_LOADING (LEVEL_LOADING u l i) = True"
| "is_LEVEL_LOADING _ = False"

text \<open>A run of \<open>k\<close> consecutive ERROR events with the same payload.\<close>

fun onError_run :: "nat \<Rightarrow> error_data \<Rightarrow> level_controller \<Rightarrow> exn + level_controller" where
  "onError_run 0 data c = Inr c"
| "onError_run (Suc k) data c =
     (case onError_run k data c of
        Inl e \<Rightarrow> Inl e
      | Inr c1 \<Rightarrow> map_sum id fst (onError data c1))"

text \<open>A non-fatal fragment, key or level load error about level \<open>i\<close>.\<close>

definition load_error_on :: "error_data \<Rightarrow> int \<Rightarrow> bool" where
  "load_error_on data i =
     (\<not> fatal data \<and>
      ((err_details data \<in> {FRAG_LOAD_ERROR, FRAG_LOAD_TIMEOUT, FRAG_LOOP_LOADING_ERROR,
                             KEY_LOAD_ERROR, KEY_LOAD_TIMEOUT}
          \<and> map_option frag_level (err_frag data) = Some i)
       \<or> (err_details data \<in> {LEVEL_LOAD_ERROR, LEVEL_LOAD_TIMEOUT}
          \<and> context_level data = Some i)))"

subsection \<open>Invariants of the Level Controller\<close>

text \<open>The selected URL index of a level points into its list of redundant URLs.\<close>

definition urlId_ok :: "level \<Rightarrow> bool" where
  "urlId_ok lv = (0 \<le> urlId lv \<and> urlId lv < int (length (url lv)))"

text \<open>
  The controller invariant: the current level, when set, is not negative, and every level
  has a selected URL index within its URL list.
\<close>

definition lc_inv :: "level_controller \<Rightarrow> bool" where
  "lc_inv c =
     ((\<forall>l. lc_level c = Some l \<longrightarrow> 0 \<le> l) \<and>
      (\<forall>levels. lc_levels c = Some levels \<longrightarrow> (\<forall>lv \<in> set levels. urlId_ok lv)))"

text \<open>
  The list of redundant URLs and the selected URL index of every level, in the order of
  the level list.
\<close>

definition level_urls :: "level list \<Rightarrow> (string list \<times> int) list" where
  "level_urls levels = map (\<lambda>lv. (url lv, urlId lv)) levels"

definition urls_of :: "level_controller \<Rightarrow> (string list \<times> int) list option" where
  "urls_of c = map_option level_urls (lc_levels c)"

text \<open>
  The errors on which \<open>onError\<close> looks at level \<open>i\<close>: a non-fatal fragment, key or level
  load error about it, or a non-fatal REMUX_ALLOC_ERROR that carries it in \<open>data.level\<close>.
\<close>

definition rotating_error :: "error_data \<Rightarrow> int \<Rightarrow> bool" where
  "rotating_error data i =
     (load_error_on data i
      \<or> (\<not> fatal data \<and> err_details data = REMUX_ALLOC_ERROR \<and> err_level data = Some i))"

fun is_ManifestLoaded :: "lc_op \<Rightarrow> bool" where
  "is_ManifestLoaded (ManifestLoaded supported cf data) = True"
| "is_ManifestLoaded _ = False"

fun is_Error :: "lc_op \<Rightarrow> bool" where
  "is_Error (Error data) = True"
| "is_Error _ = False"

fun is_LevelRemoved :: "lc_op \<Rightarrow> bool" where
  "is_LevelRemoved (LevelRemoved i) = True"
| "is_LevelRemoved _ = False"

section \<open>Audio Stream Controller\<close>

datatype State =
    STOPPED | STARTING | IDLE | WAITING_TRACK | WAITING_INIT_PTS | FRAG_LOADING
  | FRAG_LOADING_WAITING_RETRY | KEY_LOADING | PARSING | PARSED | BUFFER_FLUSHING
  | ENDED | ERROR | PAUSED

text \<open>
  A JavaScript number that may fail \<open>Number.isFinite\<close>; a missing value
  (\<open>undefined\<close>) is \<open>None\<close> and is not finite either.
\<close>

datatype jsnum = Num real | PosInfinity | NegInfinity | NaN

fun isFinite :: "jsnum option \<Rightarrow> bool" where
  "isFinite (Some (Num x)) = True"
| "isFinite _ = False"

datatype FragmentState = NOT_LOADED | APPENDING | PARTIAL | OK

record asc_config =
  fragLoadingMaxRetry :: int
  fragLoadingRetryDelay :: real
  fragLoadingMaxRetryTimeout :: real
  maxBufferLength :: real
  maxMaxBufferLength :: real
  maxBufferHole :: real
  maxFragLookUpTolerance :: real
  startFragPrefetch :: bool

record audio_track =
  track_details :: "level_details option"
  track_url :: "string option"

datatype asc_event =
    Ev_BUFFER_EOS string
  | Ev_KEY_LOADING fragment
  | Ev_BUFFER_FLUSHING jsnum jsnum string

text \<open>
  The fields of the controller that \<open>doTick\<close>, \<open>onInitPtsFound\<close> and \<open>onError\<close> read or
  write. \<open>fragLoadError\<close> is 0 while the source has it \<open>0\<close> or \<open>undefined\<close>;
  \<open>nextLoadPosition\<close> is \<open>None\<close> while it is not a finite number; \<open>initPTS\<close> is the
  sparse array indexed by continuity counter; \<open>asc_triggered\<close> is the sequence of events
  handed to \<open>hls.trigger\<close>.
\<close>

record audio_stream_controller =
  state :: State
  config :: asc_config
  fragLoadError :: nat
  retryDate :: real
  startFragRequested :: bool
  asc_media :: "media_element option"
  mediaBuffer :: "media_element option"
  videoBuffer :: "media_element option"
  initPTS :: "int \<Rightarrow> jsnum option"
  videoTrackCC :: int
  audioSwitch :: bool
  trackId :: int
  asc_levels :: "audio_track list option"
  fragCurrent :: "fragment option"
  fragPrevious :: "fragment option"
  nextLoadPosition :: "real option"
  loadedmetadata :: bool
  asc_triggered :: "asc_event list"

definition asc_trigger :: "asc_event \<Rightarrow> audio_stream_controller \<Rightarrow> audio_stream_controller" where
  "asc_trigger e s = s\<lparr>asc_triggered := asc_triggered s @ [e]\<rparr>"

subsection \<open>Collaborators that are not among the sources\<close>

record buffer_info =
  len :: real
  buf_end :: real
  nextStart :: "real option"

text \<open>
  \<open>BufferHelper.bufferInfo\<close>, \<open>this._streamEnded\<close>, \<open>findFragWithCC\<close>,
  \<open>findFragmentByPTS\<close> and \<open>fragmentTracker.getState\<close> are called by \<open>doTick\<close> but
  defined elsewhere: they are parameters of the model.
\<close>

record tick_env =
  bufferInfo :: "media_element option \<Rightarrow> real \<Rightarrow> real \<Rightarrow> buffer_info"
  streamEnded :: "buffer_info \<Rightarrow> level_details \<Rightarrow> bool"
  findFragWithCC :: "fragment list \<Rightarrow> int \<Rightarrow> fragment option"
  findFragmentByPTS :: "fragment option \<Rightarrow> fragment list \<Rightarrow> real \<Rightarrow> real \<Rightarrow> fragment option"
  getState :: "fragment \<Rightarrow> FragmentState"
  performance_now :: real

text \<open>
  Modelled from the spec: \<open>_loadInitSegment\<close> and \<open>_loadFragForPlayback\<close> of the base
  stream controller, which is not among the sources. On dispatching a load the
  controller transitions to FRAG_LOADING.
\<close>

definition loadInitSegment :: "fragment \<Rightarrow> audio_stream_controller \<Rightarrow> audio_stream_controller" where
  "loadInitSegment frag s = s\<lparr>state := FRAG_LOADING\<rparr>"

definition loadFragForPlayback :: "fragment \<Rightarrow> audio_stream_controller \<Rightarrow> audio_stream_controller" where
  "loadFragForPlayback frag s = s\<lparr>state := FRAG_LOADING\<rparr>"

subsection \<open>doTick\<close>

text \<open>\<open>this.media.currentTime = t\<close>; raises when no media element is attached.\<close>

definition seek_media :: "real \<Rightarrow> audio_stream_controller \<Rightarrow> exn + audio_stream_controller" where
  "seek_media t s =
     (case asc_media s of
        None \<Rightarrow> Inl TypeError
      | Some m \<Rightarrow> Inr (s\<lparr>asc_media := Some (m\<lparr>currentTime := t\<rparr>)\<rparr>))"

definition truthy_num :: "real option \<Rightarrow> bool" where
  "truthy_num x = (case x of None \<Rightarrow> False | Some v \<Rightarrow> v \<noteq> 0)"

text \<open>
  The part of the IDLE case that runs when an audio track switch is pending: it moves
  \<open>bufferEnd\<close>, and may seek the media element or give up for this tick (\<open>None\<close>).
\<close>

definition idle_audioSwitch ::
  "real \<Rightarrow> buffer_info \<Rightarrow> level_details \<Rightarrow> real \<Rightarrow> audio_stream_controller
     \<Rightarrow> exn + (audio_stream_controller \<times> real) option" where
  "idle_audioSwitch pos bi trackDetails start0 s =
     (if audioSwitch s then
        (if live trackDetails \<and> \<not> PTSKnown trackDetails then Inr (Some (s, 0))
         else if PTSKnown trackDetails \<and> pos < start0 then
           (if buf_end bi > start0 \<or> truthy_num (nextStart bi) then
              (case seek_media (start0 + 0.05) s of
                 Inl e \<Rightarrow> Inl e
               | Inr s1 \<Rightarrow> Inr (Some (s1, pos)))
            else Inr None)
         else Inr (Some (s, pos)))
      else Inr (Some (s, buf_end bi)))"

text \<open>
  The choice of the fragment to load, once the track's playlist is known and the stream
  has not ended. The result is the controller and the chosen fragment; no fragment
  means that the tick ends here.
\<close>

definition idle_findFrag ::
  "tick_env \<Rightarrow> real \<Rightarrow> buffer_info \<Rightarrow> level_details \<Rightarrow> audio_stream_controller
     \<Rightarrow> exn + (audio_stream_controller \<times> fragment option)" where
  "idle_findFrag env pos bi trackDetails s =
     (case fragments trackDetails of
        [] \<Rightarrow> Inl TypeError
      | f0 # _ \<Rightarrow>
          (let frags = fragments trackDetails;
               fragLen = length frags;
               end = start (last frags) + duration (last frags);
               start0 = start f0
           in case idle_audioSwitch pos bi trackDetails start0 s of
                Inl e \<Rightarrow> Inl e
              | Inr None \<Rightarrow> Inr (s, None)
              | Inr (Some (s1, bufferEnd)) \<Rightarrow>
                  if (case initSegment trackDetails of
                        Some seg \<Rightarrow> frag_data seg = None
                      | None \<Rightarrow> False) then
                    Inr (s1, initSegment trackDetails)
                  else if bufferEnd < start0 then
                    (let frag = (if videoTrackCC s1 > -1 \<and> cc f0 \<noteq> videoTrackCC s1
                                 then findFragWithCC env frags (videoTrackCC s1)
                                 else Some f0)
                     in if live trackDetails then
                          (case seek_media
                                  ((case nextStart bi of
                                      Some nb \<Rightarrow> if nb \<noteq> 0 then nb else start0
                                    | None \<Rightarrow> start0) + 0.05) s1 of
                             Inl e \<Rightarrow> Inl e
                           | Inr s2 \<Rightarrow> Inr (s2, None))
                        else Inr (s1, frag))
                  else
                    (let foundFrag =
                           (if bufferEnd < end then
                              findFragmentByPTS env (fragPrevious s1) frags bufferEnd
                                (if bufferEnd > end - maxFragLookUpTolerance (config s1) then 0
                                 else maxFragLookUpTolerance (config s1))
                            else Some (last frags))
                     in case foundFrag of
                          None \<Rightarrow> Inr (s1, None)
                        | Some frag \<Rightarrow>
                            (case fragPrevious s1 of
                               None \<Rightarrow> Inr (s1, Some frag)
                             | Some prev \<Rightarrow>
                                 if frag_level frag = frag_level prev \<and> sn frag = sn prev then
                                   (case sn frag of
                                      SN n \<Rightarrow>
                                        if n < endSN trackDetails then
                                          (case nth_opt frags (n + 1 - startSN trackDetails) of
                                             None \<Rightarrow> Inl TypeError
                                           | Some next \<Rightarrow> Inr (s1, Some next))
                                        else Inr (s1, None)
                                    | InitSegmentSN \<Rightarrow> Inr (s1, None))
                                 else Inr (s1, Some frag)))))"

text \<open>
  What the IDLE case does with the chosen fragment: ask for its key, load it, or wait
  for the video track's init PTS. \<open>switching\<close> is the value \<open>audioSwitch\<close> had when the tick
  started.
\<close>

definition idle_loadFrag ::
  "tick_env \<Rightarrow> bool \<Rightarrow> level_details \<Rightarrow> fragment \<Rightarrow> audio_stream_controller
     \<Rightarrow> audio_stream_controller" where
  "idle_loadFrag env switching trackDetails frag s =
     (if encrypted frag then
        asc_trigger (Ev_KEY_LOADING frag) (s\<lparr>state := KEY_LOADING\<rparr>)
      else
        (let fragState = getState env frag;
             prevPos = nextLoadPosition s;
             s1 = s\<lparr>fragCurrent := Some frag, startFragRequested := True\<rparr>;
             s2 = (case sn frag of
                     SN n \<Rightarrow> s1\<lparr>nextLoadPosition := Some (start frag + duration frag)\<rparr>
                   | InitSegmentSN \<Rightarrow> s1)
         in if switching \<or> fragState = NOT_LOADED then
              (if sn frag = InitSegmentSN then loadInitSegment frag s2
               else if initSegment trackDetails \<noteq> None \<or> isFinite (initPTS s2 (cc frag)) then
                 loadFragForPlayback frag s2
               else s2\<lparr>state := WAITING_INIT_PTS, nextLoadPosition := prevPos\<rparr>)
            else s2))"

text \<open>
  The outcome of the IDLE case before the load step: the tick is over (\<open>Tick_done\<close>), or a
  fragment of the given playlist has been chosen.
\<close>

datatype idle_choice =
    Tick_done audio_stream_controller
  | Chosen audio_stream_controller level_details fragment

definition idle_choose :: "tick_env \<Rightarrow> audio_stream_controller \<Rightarrow> exn + idle_choice" where
  "idle_choose env s =
     (case asc_levels s of
        None \<Rightarrow> Inr (Tick_done s)
      | Some levels \<Rightarrow>
          if asc_media s = None \<and> (startFragRequested s \<or> \<not> startFragPrefetch (config s)) then
            Inr (Tick_done s)
          else
            (case (if loadedmetadata s
                   then (case asc_media s of
                           None \<Rightarrow> Inl TypeError
                         | Some m \<Rightarrow> Inr (Some (currentTime m)))
                   else Inr (nextLoadPosition s)) of
               Inl e \<Rightarrow> Inl e
             | Inr None \<Rightarrow> Inr (Tick_done s)
             | Inr (Some pos) \<Rightarrow>
                 (case nth_opt levels (trackId s) of
                    None \<Rightarrow> Inr (Tick_done s)
                  | Some levelInfo \<Rightarrow>
                      (let media = (case mediaBuffer s of Some b \<Rightarrow> Some b | None \<Rightarrow> asc_media s);
                           video = (case videoBuffer s of Some b \<Rightarrow> Some b | None \<Rightarrow> asc_media s);
                           bi = bufferInfo env media pos (maxBufferHole (config s));
                           mainBufferInfo = bufferInfo env video pos (maxBufferHole (config s));
                           maxConfigBuffer = min (maxBufferLength (config s))
                                                 (maxMaxBufferLength (config s));
                           maxBufLen = max maxConfigBuffer (len mainBufferInfo)
                       in if len bi < maxBufLen \<or> audioSwitch s then
                            (case track_details levelInfo of
                               None \<Rightarrow> Inr (Tick_done (s\<lparr>state := WAITING_TRACK\<rparr>))
                             | Some trackDetails \<Rightarrow>
                                 if \<not> audioSwitch s \<and> streamEnded env bi trackDetails then
                                   Inr (Tick_done
                                          ((asc_trigger (Ev_BUFFER_EOS ''audio'') s)\<lparr>state := ENDED\<rparr>))
                                 else
                                   (case idle_findFrag env pos bi trackDetails s of
                                      Inl e \<Rightarrow> Inl e
                                    | Inr (s1, None) \<Rightarrow> Inr (Tick_done s1)
                                    | Inr (s1, Some frag) \<Rightarrow> Inr (Chosen s1 trackDetails frag)))
                          else Inr (Tick_done s)))))"

definition doTick :: "tick_env \<Rightarrow> audio_stream_controller \<Rightarrow> exn + audio_stream_controller" where
  "doTick env s =
     (case state s of
        ERROR \<Rightarrow> Inr s
      | PAUSED \<Rightarrow> Inr s
      | BUFFER_FLUSHING \<Rightarrow> Inr s
      | STARTING \<Rightarrow> Inr (s\<lparr>state := WAITING_TRACK, loadedmetadata := False\<rparr>)
      | IDLE \<Rightarrow>
          (case idle_choose env s of
             Inl e \<Rightarrow> Inl e
           | Inr (Tick_done s1) \<Rightarrow> Inr s1
           | Inr (Chosen s1 trackDetails frag) \<Rightarrow>
               Inr (idle_loadFrag env (audioSwitch s) trackDetails frag s1))
      | WAITING_TRACK \<Rightarrow>
          (case asc_levels s of
             None \<Rightarrow> Inr s
           | Some levels \<Rightarrow>
               (case nth_opt levels (trackId s) of
                  None \<Rightarrow> Inr s
                | Some track \<Rightarrow>
                    if track_details track \<noteq> None then Inr (s\<lparr>state := WAITING_INIT_PTS\<rparr>)
                    else Inr s))
      | FRAG_LOADING_WAITING_RETRY \<Rightarrow>
          (let isSeeking = (case asc_media s of Some m \<Rightarrow> seeking m | None \<Rightarrow> False)
           in if retryDate s = 0 \<or> performance_now env \<ge> retryDate s \<or> isSeeking
              then Inr (s\<lparr>state := IDLE\<rparr>) else Inr s)
      | WAITING_INIT_PTS \<Rightarrow>
          (if isFinite (initPTS s (videoTrackCC s)) then Inr (s\<lparr>state := IDLE\<rparr>) else Inr s)
      | STOPPED \<Rightarrow> Inr s
      | FRAG_LOADING \<Rightarrow> Inr s
      | PARSING \<Rightarrow> Inr s
      | PARSED \<Rightarrow> Inr s
      | ENDED \<Rightarrow> Inr s
      | KEY_LOADING \<Rightarrow> Inr s)"

text \<open>
  Modelled from the spec: \<open>tick\<close> of the base stream controller, which is not among the
  sources. The state machine is driven by a periodic tick plus immediate ticks on
  relevant external events; a tick runs \<open>doTick\<close>.
\<close>

definition asc_tick :: "tick_env \<Rightarrow> audio_stream_controller \<Rightarrow> exn + audio_stream_controller" where
  "asc_tick env s = doTick env s"

subsection \<open>onInitPtsFound\<close>

definition onInitPtsFound ::
  "tick_env \<Rightarrow> fragment \<Rightarrow> jsnum \<Rightarrow> audio_stream_controller \<Rightarrow> exn + audio_stream_controller" where
  "onInitPtsFound env frag v s =
     (let s1 = s\<lparr>initPTS := (initPTS s)(cc frag \<mapsto> v), videoTrackCC := cc frag\<rparr>
      in if state s1 = WAITING_INIT_PTS then asc_tick env s1 else Inr s1)"

subsection \<open>onError\<close>

text \<open>
  \<open>mediaBuffered\<close> of the BUFFER_FULL_ERROR case; \<open>this.media.currentTime\<close> is read first
  and raises when no media element is attached.
\<close>

definition asc_mediaBuffered :: "audio_stream_controller \<Rightarrow> exn + bool" where
  "asc_mediaBuffered s =
     (case asc_media s of
        None \<Rightarrow> Inl TypeError
      | Some m \<Rightarrow>
          Inr (case mediaBuffer s of
                 None \<Rightarrow> False
               | Some media \<Rightarrow>
                   isBuffered media (currentTime m) \<and> isBuffered media (currentTime m + 0.5)))"

text \<open>\<open>now\<close> is the value of \<open>performance.now()\<close> when the handler runs.\<close>

definition asc_onError ::
  "real \<Rightarrow> error_data \<Rightarrow> audio_stream_controller
     \<Rightarrow> exn + (audio_stream_controller \<times> error_data)" where
  "asc_onError now data s =
     (if (case err_frag data of Some f \<Rightarrow> frag_type f \<noteq> ''audio'' | None \<Rightarrow> False) then
        Inr (s, data)
      else if err_details data \<in> {FRAG_LOAD_ERROR, FRAG_LOAD_TIMEOUT} then
        (if \<not> fatal data then
           (let loadError = (if fragLoadError s \<noteq> 0 then fragLoadError s + 1 else 1)
            in if int loadError \<le> fragLoadingMaxRetry (config s) then
                 (let delay = min (2 ^ (loadError - 1) * fragLoadingRetryDelay (config s))
                                  (fragLoadingMaxRetryTimeout (config s))
                  in Inr (s\<lparr>fragLoadError := loadError, retryDate := now + delay,
                            state := FRAG_LOADING_WAITING_RETRY\<rparr>, data))
               else Inr (s\<lparr>state := ERROR\<rparr>, data\<lparr>fatal := True\<rparr>))
         else Inr (s, data))
      else if err_details data \<in> {AUDIO_TRACK_LOAD_ERROR, AUDIO_TRACK_LOAD_TIMEOUT,
                                   KEY_LOAD_ERROR, KEY_LOAD_TIMEOUT} then
        (if state s \<noteq> ERROR
         then Inr (s\<lparr>state := (if fatal data then ERROR else IDLE)\<rparr>, data)
         else Inr (s, data))
      else if err_details data = BUFFER_FULL_ERROR then
        (if parent data = Some ''audio'' \<and> (state s = PARSING \<or> state s = PARSED) then
           (case asc_mediaBuffered s of
              Inl e \<Rightarrow> Inl e
            | Inr mediaBuffered \<Rightarrow>
                if mediaBuffered then
                  (let cfg = config s;
                       cfg1 = (if maxMaxBufferLength cfg \<ge> maxBufferLength cfg
                               then cfg\<lparr>maxMaxBufferLength := maxMaxBufferLength cfg / 2\<rparr>
                               else cfg)
                   in Inr (s\<lparr>config := cfg1, state := IDLE\<rparr>, data))
                else
                  Inr (asc_trigger (Ev_BUFFER_FLUSHING (Num 0) PosInfinity ''audio'')
                         (s\<lparr>fragCurrent := None, state := BUFFER_FLUSHING\<rparr>), data))
         else Inr (s, data))
      else Inr (s, data))"

text \<open>
  A run of \<open>k\<close> successive ERROR events with the same payload, the \<open>j\<close>-th handled at time
  \<open>t j\<close>. The result is the controller after the run and the payload of the last event
  as its handler left it.
\<close>

fun asc_onError_run ::
  "(nat \<Rightarrow> real) \<Rightarrow> nat \<Rightarrow> error_data \<Rightarrow> audio_stream_controller
     \<Rightarrow> exn + (audio_stream_controller \<times> error_data)" where
  "asc_onError_run t 0 data s = Inr (s, data)"
| "asc_onError_run t (Suc k) data s =
     (case asc_onError_run t k data s of
        Inl e \<Rightarrow> Inl e
      | Inr (s1, _) \<Rightarrow> asc_onError (t (Suc k)) data s1)"

subsection \<open>Notions used to state the properties of the controller\<close>

text \<open>
  A recoverable fragment-load error that the audio stream controller handles: not fatal,
  FRAG_LOAD_ERROR or FRAG_LOAD_TIMEOUT, about an audio fragment or about none.
\<close>

definition frag_load_error :: "error_data \<Rightarrow> bool" where
  "frag_load_error data =
     (\<not> fatal data \<and> err_details data \<in> {FRAG_LOAD_ERROR, FRAG_LOAD_TIMEOUT}
      \<and> (case err_frag data of Some f \<Rightarrow> frag_type f = ''audio'' | None \<Rightarrow> True))"

text \<open>
  The current playback position \<open>m.currentTime\<close> is buffered in the audio source buffer:
  \<open>mediaBuffered\<close> of the source, the position and the position plus the 0.5 s tolerance.
\<close>

definition position_buffered :: "audio_stream_controller \<Rightarrow> media_element \<Rightarrow> bool" where
  "position_buffered s m =
     (case mediaBuffer s of
        None \<Rightarrow> False
      | Some b \<Rightarrow> isBuffered b (currentTime m) \<and> isBuffered b (currentTime m + 0.5))"

text \<open>The playlist of the selected audio track has been loaded.\<close>

definition track_loaded :: "audio_stream_controller \<Rightarrow> bool" where
  "track_loaded s =
     (case asc_levels s of
        None \<Rightarrow> False
      | Some tracks \<Rightarrow>
          (case nth_opt tracks (trackId s) of
             None \<Rightarrow> False
           | Some track \<Rightarrow> track_details track \<noteq> None))"

section \<open>AAC demuxer\<close>

type_synonym bytes = "8 word list"

text \<open>
  \<open>data[i]\<close> on a \<open>Uint8Array\<close>. Outside the array the source reads \<open>undefined\<close>, which
  the bitwise operators turn into 0 and which equals no byte value the code compares
  with; the byte 0 behaves the same way in every use below.
\<close>

definition byte_at :: "bytes \<Rightarrow> nat \<Rightarrow> 8 word" where
  "byte_at data i = (if i < length data then data ! i else 0)"

text \<open>\<open>data.slice(from)\<close> and \<open>data.subarray(from, to)\<close>, both clamped to the array.\<close>

definition slice_from :: "bytes \<Rightarrow> nat \<Rightarrow> bytes" where
  "slice_from data from = drop from data"

definition subarray :: "bytes \<Rightarrow> nat \<Rightarrow> nat \<Rightarrow> bytes" where
  "subarray data from to = take (to - from) (drop from data)"

subsection \<open>ADTS frames\<close>

text \<open>
  Modelled from the spec: the ADTS helper module (\<open>./adts\<close>) is not among the sources.
  A frame header starts with the frame-sync pattern, 12 sync bits plus the fixed layer
  bits; it carries the length of the whole frame in 13 bits and is 7 bytes long, or 9
  with a CRC; a frame is extracted when its declared length fits within the remaining
  buffer; its timestamp is extrapolated as frame index times samples per frame (1024)
  over the sample rate, on the 90 kHz clock.
\<close>

definition ADTS_isHeaderPattern :: "bytes \<Rightarrow> nat \<Rightarrow> bool" where
  "ADTS_isHeaderPattern data offset =
     (byte_at data offset = 0xff \<and> (byte_at data (offset + 1) AND 0xf6) = 0xf0)"

definition ADTS_isHeader :: "bytes \<Rightarrow> nat \<Rightarrow> bool" where
  "ADTS_isHeader data offset = (offset + 1 < length data \<and> ADTS_isHeaderPattern data offset)"

definition ADTS_getHeaderLength :: "bytes \<Rightarrow> nat \<Rightarrow> nat" where
  "ADTS_getHeaderLength data offset = (if byte_at data (offset + 1) AND 0x01 \<noteq> 0 then 7 else 9)"

definition ADTS_getFullFrameLength :: "bytes \<Rightarrow> nat \<Rightarrow> nat" where
  "ADTS_getFullFrameLength data offset =
     (push_bit 11 (unat (byte_at data (offset + 3) AND 0x03))
      OR push_bit 3 (unat (byte_at data (offset + 4)))
      OR drop_bit 5 (unat (byte_at data (offset + 5) AND 0xE0)))"

record aac_sample =
  unit :: bytes
  pts :: real
  dts :: real

record audio_track_data =
  samplerate :: nat
  manifestCodec :: "string option"
  samples :: "aac_sample list"

definition ADTS_getFrameDuration :: "nat \<Rightarrow> real" where
  "ADTS_getFrameDuration rate = 1024 * 90000 / real rate"

text \<open>The header length, the payload length and the timestamp of the frame at \<open>offset\<close>.\<close>

definition ADTS_parseFrameHeader ::
  "bytes \<Rightarrow> nat \<Rightarrow> real \<Rightarrow> nat \<Rightarrow> real \<Rightarrow> (nat \<times> nat \<times> real) option" where
  "ADTS_parseFrameHeader data offset pts0 frameIndex frameDuration =
     (let headerLength = ADTS_getHeaderLength data offset;
          fullLength = ADTS_getFullFrameLength data offset
      in if headerLength < fullLength \<and> offset + fullLength \<le> length data
         then Some (headerLength, fullLength - headerLength,
                    pts0 + real frameIndex * frameDuration)
         else None)"

text \<open>The sample appended to the track, with the number of bytes the frame takes.\<close>

definition ADTS_appendFrame ::
  "audio_track_data \<Rightarrow> bytes \<Rightarrow> nat \<Rightarrow> real \<Rightarrow> nat \<Rightarrow> (aac_sample \<times> nat) option" where
  "ADTS_appendFrame track data offset pts0 frameIndex =
     (case ADTS_parseFrameHeader data offset pts0 frameIndex
             (ADTS_getFrameDuration (samplerate track)) of
        None \<Rightarrow> None
      | Some (headerLength, frameLength, stamp) \<Rightarrow>
          Some (\<lparr>unit = subarray data (offset + headerLength)
                           (offset + headerLength + frameLength),
                 pts = stamp, dts = stamp\<rparr>,
                frameLength + headerLength))"

text \<open>
  Modelled from the spec: \<open>ADTS.initTrackConfig\<close>. The track configuration is fixed once
  the track is set up, so a configured track is left as it is.
\<close>

definition ADTS_initTrackConfig :: "audio_track_data \<Rightarrow> bytes \<Rightarrow> nat \<Rightarrow> audio_track_data" where
  "ADTS_initTrackConfig track data offset = track"

subsection \<open>ID3 tags\<close>

text \<open>
  Modelled from the spec: the ID3 helper module (\<open>../demux/id3\<close>) is not among the
  sources. The optional timed-metadata header is an ID3v2 tag: ten header bytes, \<open>ID3\<close>,
  two version bytes below \<open>0xFF\<close>, a flags byte and four size bytes below \<open>0x80\<close> holding
  seven bits each, then the body of that size and an optional ten-byte footer \<open>3DI\<close>.
  Decoding the timestamp out of the tag is left a parameter of \<open>demux\<close>.
\<close>

definition ID3_isHeader :: "bytes \<Rightarrow> nat \<Rightarrow> bool" where
  "ID3_isHeader data offset =
     (offset + 10 \<le> length data
      \<and> byte_at data offset = 0x49 \<and> byte_at data (offset + 1) = 0x44
      \<and> byte_at data (offset + 2) = 0x33
      \<and> byte_at data (offset + 3) < 0xFF \<and> byte_at data (offset + 4) < 0xFF
      \<and> byte_at data (offset + 6) < 0x80 \<and> byte_at data (offset + 7) < 0x80
      \<and> byte_at data (offset + 8) < 0x80 \<and> byte_at data (offset + 9) < 0x80)"

definition ID3_isFooter :: "bytes \<Rightarrow> nat \<Rightarrow> bool" where
  "ID3_isFooter data offset =
     (offset + 10 \<le> length data
      \<and> byte_at data offset = 0x33 \<and> byte_at data (offset + 1) = 0x44
      \<and> byte_at data (offset + 2) = 0x49
      \<and> byte_at data (offset + 3) < 0xFF \<and> byte_at data (offset + 4) < 0xFF
      \<and> byte_at data (offset + 6) < 0x80 \<and> byte_at data (offset + 7) < 0x80
      \<and> byte_at data (offset + 8) < 0x80 \<and> byte_at data (offset + 9) < 0x80)"

definition ID3_readSize :: "bytes \<Rightarrow> nat \<Rightarrow> nat" where
  "ID3_readSize data offset =
     (push_bit 21 (unat (byte_at data offset AND 0x7f))
      OR push_bit 14 (unat (byte_at data (offset + 1) AND 0x7f))
      OR push_bit 7 (unat (byte_at data (offset + 2) AND 0x7f))
      OR unat (byte_at data (offset + 3) AND 0x7f))"

text \<open>
  The running length after the tag at \<open>offset\<close>: ten header bytes, the body, and ten more
  bytes when a footer follows the header.
\<close>

definition ID3_addTag :: "bytes \<Rightarrow> nat \<Rightarrow> nat \<Rightarrow> nat" where
  "ID3_addTag data offset n =
     n + 10 + ID3_readSize data (offset + 6) + (if ID3_isFooter data (offset + 10) then 10 else 0)"

lemma ID3_isHeader_bound: "ID3_isHeader data offset \<Longrightarrow> offset + 10 \<le> length data"
  by (simp add: ID3_isHeader_def)

lemma ID3_addTag_ge: "n + 10 \<le> ID3_addTag data offset n"
  by (simp add: ID3_addTag_def)

text \<open>The number of bytes that the consecutive tags at \<open>offset\<close> take.\<close>

function ID3_tagsLength :: "bytes \<Rightarrow> nat \<Rightarrow> nat \<Rightarrow> nat" where
  "ID3_tagsLength data offset n =
     (if ID3_isHeader data offset
      then ID3_tagsLength data (offset + ID3_addTag data offset n) (ID3_addTag data offset n)
      else n)"
  by pat_completeness auto
termination
proof (relation "measure (\<lambda>(data, offset, n). length data - offset)")
  show "wf (measure (\<lambda>(data, offset, n). length data - offset))" by simp
next
  fix data :: bytes and offset n :: nat
  assume "ID3_isHeader data offset"
  then have "offset + 10 \<le> length data" by (rule ID3_isHeader_bound)
  moreover have "n + 10 \<le> ID3_addTag data offset n" by (rule ID3_addTag_ge)
  ultimately
  show "((data, offset + ID3_addTag data offset n, ID3_addTag data offset n), data, offset, n)
          \<in> measure (\<lambda>(data, offset, n). length data - offset)"
    by simp
qed

declare ID3_tagsLength.simps [simp del]

definition ID3_getID3Data :: "bytes \<Rightarrow> nat \<Rightarrow> bytes option" where
  "ID3_getID3Data data offset =
     (let n = ID3_tagsLength data offset 0
      in if n > 0 then Some (subarray data offset (offset + n)) else None)"

subsection \<open>The demuxer\<close>

record aac_demuxer =
  audioTrack :: audio_track_data
  frameIndex :: nat
  cachedData :: bytes

definition resetInitSegment :: "nat \<Rightarrow> string option \<Rightarrow> aac_demuxer \<Rightarrow> aac_demuxer" where
  "resetInitSegment rate codec d =
     d\<lparr>audioTrack := \<lparr>samplerate = rate, manifestCodec = codec, samples = []\<rparr>\<rparr>"

lemma ADTS_appendFrame_length:
  "ADTS_appendFrame track data offset pts0 i = Some (smp, n) \<Longrightarrow> 0 < n"
  by (auto simp: ADTS_appendFrame_def ADTS_parseFrameHeader_def Let_def
           split: option.splits if_splits)

lemma ID3_tagsLength_ge: "n \<le> ID3_tagsLength data offset n"
proof (induction data offset n rule: ID3_tagsLength.induct)
  case (1 data offset n)
  show ?case
  proof (cases "ID3_isHeader data offset")
    case False
    then show ?thesis by (subst ID3_tagsLength.simps) simp
  next
    case True
    have "ID3_addTag data offset n
            \<le> ID3_tagsLength data (offset + ID3_addTag data offset n) (ID3_addTag data offset n)"
      using "1.IH" [OF True] .
    moreover have "n + 10 \<le> ID3_addTag data offset n" by (rule ID3_addTag_ge)
    moreover have "ID3_tagsLength data offset n
            = ID3_tagsLength data (offset + ID3_addTag data offset n) (ID3_addTag data offset n)"
      using True by (subst ID3_tagsLength.simps) simp
    ultimately show ?thesis by linarith
  qed
qed

lemma ID3_getID3Data_length:
  assumes "ID3_isHeader data offset" and "ID3_getID3Data data offset = Some tag"
  shows "0 < length tag"
proof -
  have "ID3_tagsLength data offset 0
          = ID3_tagsLength data (offset + ID3_addTag data offset 0) (ID3_addTag data offset 0)"
    using assms(1) by (subst ID3_tagsLength.simps) simp
  moreover have "ID3_addTag data offset 0
          \<le> ID3_tagsLength data (offset + ID3_addTag data offset 0) (ID3_addTag data offset 0)"
    by (rule ID3_tagsLength_ge)
  moreover have "0 + 10 \<le> ID3_addTag data offset 0" by (rule ID3_addTag_ge)
  ultimately have n: "10 \<le> ID3_tagsLength data offset 0" by linarith
  have b: "offset + 10 \<le> length data" using assms(1) by (rule ID3_isHeader_bound)
  have "tag = subarray data offset (offset + ID3_tagsLength data offset 0)"
    using assms(2) n unfolding ID3_getID3Data_def Let_def by (simp split: if_splits)
  then have "length tag = min (length data - offset) (ID3_tagsLength data offset 0)"
    by (simp add: subarray_def)
  with n b show ?thesis by linarith
qed

text \<open>
  The parsing loop of \<open>demux\<close> from \<open>offset\<close> on: the demuxer when the loop is left. The
  list \<open>id3Samples\<close> and the variable \<open>stamp\<close> of the source are local to \<open>demux\<close> and
  never read, so they are left out.
\<close>

function demux_loop :: "bytes \<Rightarrow> real \<Rightarrow> nat \<Rightarrow> aac_demuxer \<Rightarrow> exn + aac_demuxer" where
  "demux_loop data pts0 offset d =
     (if offset \<le> length data then
        (if ADTS_isHeader data offset \<and> offset + 5 < length data
            \<and> ADTS_getFullFrameLength data offset < length data - offset then
           (let track = ADTS_initTrackConfig (audioTrack d) data offset
            in case ADTS_appendFrame track data offset pts0 (frameIndex d) of
                 Some (sample, n) \<Rightarrow>
                   demux_loop data pts0 (offset + n)
                     (d\<lparr>audioTrack := track\<lparr>samples := samples track @ [sample]\<rparr>,
                        frameIndex := frameIndex d + 1\<rparr>)
               | None \<Rightarrow>
                   Inr (d\<lparr>audioTrack := track, cachedData := slice_from data offset\<rparr>))
         else if ID3_isHeader data offset then
           (case ID3_getID3Data data offset of
              Some id3Data \<Rightarrow> demux_loop data pts0 (offset + length id3Data) d
            | None \<Rightarrow> Inl TypeError)
         else Inr (d\<lparr>cachedData := slice_from data offset\<rparr>))
      else Inr d)"
  by pat_completeness auto
termination
proof (relation "measure (\<lambda>(data, pts0, offset, d). length data + 1 - offset)")
  show "wf (measure (\<lambda>(data, pts0, offset, d). length data + 1 - offset))" by simp
next
  fix data :: bytes and pts0 :: real and offset :: nat and d :: aac_demuxer
    and track x2 sample n
  assume "offset \<le> length data"
    and "ADTS_appendFrame track data offset pts0 (frameIndex d) = Some x2"
    and "(sample, n) = x2"
  then have "0 < n" using ADTS_appendFrame_length [of track data offset pts0 "frameIndex d" sample n]
    by simp
  with \<open>offset \<le> length data\<close>
  show "((data, pts0, offset + n,
          d\<lparr>audioTrack := track\<lparr>samples := samples track @ [sample]\<rparr>,
             frameIndex := frameIndex d + 1\<rparr>),
         data, pts0, offset, d) \<in> measure (\<lambda>(data, pts0, offset, d). length data + 1 - offset)"
    by simp
next
  fix data :: bytes and pts0 :: real and offset :: nat and d :: aac_demuxer and id3Data
  assume "offset \<le> length data" and "ID3_isHeader data offset"
    and "ID3_getID3Data data offset = Some id3Data"
  then have "0 < length id3Data" using ID3_getID3Data_length by blast
  with \<open>offset \<le> length data\<close>
  show "((data, pts0, offset + length id3Data, d), data, pts0, offset, d)
          \<in> measure (\<lambda>(data, pts0, offset, d). length data + 1 - offset)"
    by (simp del: length_greater_0_conv)
qed

declare demux_loop.simps [simp del]

text \<open>
  \<open>demux(data, timeOffset)\<close>; \<open>getTimeStamp\<close> stands for \<open>ID3.getTimeStamp\<close>, with \<open>None\<close>
  for a result that is not a finite number. The samples accumulate in the track.
\<close>

definition demux ::
  "(bytes \<Rightarrow> real option) \<Rightarrow> bytes \<Rightarrow> real \<Rightarrow> aac_demuxer \<Rightarrow> exn + aac_demuxer" where
  "demux getTimeStamp chunk timeOffset d =
     (let data = (if cachedData d \<noteq> [] then cachedData d @ chunk else chunk);
          d1 = (if cachedData d \<noteq> [] then d\<lparr>cachedData := []\<rparr> else d);
          id3Data = (case ID3_getID3Data data 0 of Some tag \<Rightarrow> tag | None \<Rightarrow> []);
          pts0 = (case getTimeStamp id3Data of
                    Some timestamp \<Rightarrow> timestamp * 90
                  | None \<Rightarrow> timeOffset * 90000)
      in demux_loop data pts0 (length id3Data) d1)"

definition flush :: "aac_demuxer \<Rightarrow> aac_demuxer" where
  "flush d = d\<lparr>frameIndex := 0\<rparr>"


section \<open>Concrete inputs\<close>

text \<open>Small inputs on which the properties below are exercised.\<close>

definition ex_details :: "bool \<Rightarrow> int \<Rightarrow> level_details" where
  "ex_details lv e =
     \<lparr>live = lv, PTSKnown = False, startSN = 0, endSN = e, targetduration = 10,
      averagetargetduration = Some 5, fragments = [], initSegment = None\<rparr>"

definition ex_level :: "int \<Rightarrow> string list \<Rightarrow> level_details option \<Rightarrow> level" where
  "ex_level b us d =
     \<lparr>bitrate = b, url = us, urlId = 0, loadError = 0, fragmentError = False, details = d,
      audioCodec = None, videoCodec = None, attrs_AUDIO = False, level_prop = None\<rparr>"

definition ex_lc :: "level list \<Rightarrow> int option \<Rightarrow> level_controller" where
  "ex_lc ls cur = (lc_init 1000 None)\<lparr>lc_levels := Some ls, lc_level := cur\<rparr>"

definition ex_manifest :: manifest_data where
  "ex_manifest =
     \<lparr>md_levels =
        [\<lparr>m_bitrate = 800, m_url = ''hi-a'', m_audioCodec = None, m_videoCodec = None,
          m_attrs_AUDIO = False\<rparr>,
         \<lparr>m_bitrate = 300, m_url = ''lo-a'', m_audioCodec = None, m_videoCodec = None,
          m_attrs_AUDIO = False\<rparr>,
         \<lparr>m_bitrate = 800, m_url = ''hi-b'', m_audioCodec = None, m_videoCodec = None,
          m_attrs_AUDIO = False\<rparr>],
      md_audioTracks = None\<rparr>"

definition ex_frag_error :: "int \<Rightarrow> error_data" where
  "ex_frag_error l =
     \<lparr>err_type = NETWORK_ERROR, err_details = FRAG_LOAD_ERROR, fatal = False,
      err_frag = Some \<lparr>sn = SN 7, cc = 0, frag_level = l, frag_type = ''main'', start = 0,
                       duration = 10, encrypted = False, frag_data = None\<rparr>,
      context_level = None, err_level = None, parent = None, levelRetry = False, reason = []\<rparr>"

text \<open>
  The controller after the example manifest, the same controller once the second level has
  moved to its second URL and a fragment of it has loaded, and a remux allocation error.
\<close>

definition ex_loaded :: level_controller where
  "ex_loaded = onManifestLoaded (\<lambda>_ _. True) False ex_manifest (lc_init 1000 None)"

definition ex_rotated :: level_controller where
  "ex_rotated =
     ex_loaded\<lparr>lc_levels := Some [ex_level 300 [''lo-a''] None,
                                   (ex_level 800 [''hi-a'', ''hi-b''] None)\<lparr>urlId := 1\<rparr>]\<rparr>"

definition ex_remux_error :: "int \<Rightarrow> error_data" where
  "ex_remux_error l =
     \<lparr>err_type = MUX_ERROR, err_details = REMUX_ALLOC_ERROR, fatal = False, err_frag = None,
      context_level = None, err_level = Some l, parent = None, levelRetry = False, reason = []\<rparr>"

definition cx_live_level :: level_controller where
  "cx_live_level = ex_lc [ex_level 800 [''hi-a''] (Some (ex_details True 20))] (Some 0)"

definition cx_loaded :: level_loaded_data where
  "cx_loaded = \<lparr>ll_level = 0, ll_details = ex_details True 20, ll_trequest = 0\<rparr>"

text \<open>
  The reload interval as the specification words it: the target duration times 1000,
  halved when the end sequence number did not move, less the request latency, floored
  at 1000.
\<close>

definition spec_reloadInterval :: "level_details option \<Rightarrow> level_loaded_data \<Rightarrow> real \<Rightarrow> real" where
  "spec_reloadInterval prev data now =
     (let nominal = targetduration (ll_details data) * 1000;
          halved = (case prev of
                      Some p \<Rightarrow> if endSN (ll_details data) = endSN p then nominal / 2 else nominal
                    | None \<Rightarrow> nominal)
      in max 1000 (halved - (now - ll_trequest data)))"

text \<open>Inputs for the audio stream controller.\<close>

definition ex_cfg :: asc_config where
  "ex_cfg = \<lparr>fragLoadingMaxRetry = 3, fragLoadingRetryDelay = 1000,
              fragLoadingMaxRetryTimeout = 3000, maxBufferLength = 30,
              maxMaxBufferLength = 600, maxBufferHole = 0.5, maxFragLookUpTolerance = 0.25,
              startFragPrefetch = False\<rparr>"

definition ex_media :: media_element where
  "ex_media = \<lparr>currentTime = 5, buffered = [(0, 10)], seeking = False\<rparr>"

definition ex_audio_frag :: "int \<Rightarrow> fragment" where
  "ex_audio_frag c = \<lparr>sn = SN 0, cc = c, frag_level = 0, frag_type = ''audio'', start = 0,
                       duration = 10, encrypted = False, frag_data = None\<rparr>"

definition ex_track_details :: level_details where
  "ex_track_details =
     \<lparr>live = False, PTSKnown = False, startSN = 0, endSN = 0, targetduration = 10,
      averagetargetduration = None, fragments = [ex_audio_frag 1], initSegment = None\<rparr>"

definition ex_asc :: "State \<Rightarrow> audio_stream_controller" where
  "ex_asc st =
     \<lparr>state = st, config = ex_cfg, fragLoadError = 0, retryDate = 0,
      startFragRequested = False, asc_media = Some ex_media, mediaBuffer = Some ex_media,
      videoBuffer = None, initPTS = Map.empty, videoTrackCC = -1, audioSwitch = False,
      trackId = 0,
      asc_levels = Some [\<lparr>track_details = Some ex_track_details, track_url = Some ''alt''\<rparr>],
      fragCurrent = None, fragPrevious = None, nextLoadPosition = Some 0,
      loadedmetadata = False, asc_triggered = []\<rparr>"

definition ex_env :: tick_env where
  "ex_env =
     \<lparr>bufferInfo = (\<lambda>m pos hole. \<lparr>len = 0, buf_end = 0, nextStart = None\<rparr>),
      streamEnded = (\<lambda>bi d. False),
      findFragWithCC = (\<lambda>frags c. find (\<lambda>f. cc f = c) frags),
      findFragmentByPTS = (\<lambda>prev frags bufferEnd tol.
          find (\<lambda>f. start f \<le> bufferEnd \<and> bufferEnd < start f + duration f) frags),
      getState = (\<lambda>f. NOT_LOADED),
      performance_now = 0\<rparr>"

definition ex_asc_error :: "error_details \<Rightarrow> error_data" where
  "ex_asc_error d =
     \<lparr>err_type = (if d = BUFFER_FULL_ERROR then MEDIA_ERROR else NETWORK_ERROR),
      err_details = d, fatal = False, err_frag = Some (ex_audio_frag 0),
      context_level = None, err_level = None, parent = Some ''audio'', levelRetry = False,
      reason = []\<rparr>"

definition cx_small_ceiling :: audio_stream_controller where
  "cx_small_ceiling = (ex_asc PARSING)\<lparr>config := ex_cfg\<lparr>maxMaxBufferLength := 10\<rparr>\<rparr>"

definition cx_track_wait :: audio_stream_controller where
  "cx_track_wait = (ex_asc WAITING_TRACK)\<lparr>initPTS := [1 \<mapsto> Num 900], videoTrackCC := 1\<rparr>"

definition cx_other_cc :: audio_stream_controller where
  "cx_other_cc = (ex_asc IDLE)\<lparr>initPTS := [0 \<mapsto> Num 900], videoTrackCC := 0\<rparr>"


text \<open>
  An ADTS frame of nine bytes: a seven-byte header (sync word, no CRC, frame length 9) and the
  payload \<open>[p, q]\<close>. The first chunk holds two frames and the first three header bytes of a
  third, the second chunk the six bytes that complete it.
\<close>

definition ex_frame :: "8 word \<Rightarrow> 8 word \<Rightarrow> bytes" where
  "ex_frame p q = [0xFF, 0xF1, 0x50, 0x80, 0x01, 0x3F, 0xFC, p, q]"

definition ex_demuxer :: aac_demuxer where
  "ex_demuxer =
     \<lparr>audioTrack = \<lparr>samplerate = 44100, manifestCodec = None, samples = []\<rparr>,
      frameIndex = 0, cachedData = []\<rparr>"

definition ex_chunk1 :: bytes where
  "ex_chunk1 = ex_frame 0x11 0x12 @ ex_frame 0x21 0x22 @ [0xFF, 0xF1, 0x50]"

definition ex_chunk2 :: bytes where
  "ex_chunk2 = [0x80, 0x01, 0x3F, 0xFC, 0x31, 0x32]"

section \<open>Properties of the Level Controller\<close>

subsection \<open>Auxiliary facts\<close>

lemma nth_opt_Some: "nth_opt xs i = Some x \<Longrightarrow> 0 \<le> i \<and> nat i < length xs \<and> xs ! nat i = x"
  by (auto simp: nth_opt_def split: if_splits)

lemma nth_opt_nat: "j < length xs \<Longrightarrow> nth_opt xs (int j) = Some (xs ! j)"
  by (simp add: nth_opt_def)

lemma urlId_ok_update:
  "\<forall>lv \<in> set levels. urlId_ok lv \<Longrightarrow> urlId_ok x \<Longrightarrow> \<forall>lv \<in> set (levels[i := x]). urlId_ok lv"
  by (metis insert_iff set_update_subset_insert subsetD)

lemma smod_nonneg: "0 \<le> a \<Longrightarrow> 0 < b \<Longrightarrow> (a::int) smod b = a mod b"
  by (simp add: smod_int_alt_def sgn_if)

lemma rotate_ok:
  "urlId_ok lv \<Longrightarrow> 1 < int (length (url lv)) \<Longrightarrow>
   urlId_ok (lv\<lparr>loadError := n, fragmentError := b,
               urlId := (urlId lv + 1) smod int (length (url lv)), details := None\<rparr>)"
proof -
  assume ok: "urlId_ok lv" and n: "1 < int (length (url lv))"
  have "(urlId lv + 1) smod int (length (url lv)) = (urlId lv + 1) mod int (length (url lv))"
  proof (rule smod_nonneg)
    show "0 \<le> urlId lv + 1" using ok by (simp add: urlId_ok_def)
    show "0 < int (length (url lv))" using n by linarith
  qed
  moreover have "0 \<le> (urlId lv + 1) mod int (length (url lv))"
    using n by (intro pos_mod_sign) linarith
  moreover have "(urlId lv + 1) mod int (length (url lv)) < int (length (url lv))"
    using n by (intro pos_mod_bound) linarith
  ultimately show ?thesis by (simp add: urlId_ok_def)
qed

lemma set_remove_index: "set (remove_index i xs) \<subseteq> set xs"
  by (induction i xs rule: remove_index.induct) auto

lemma lc_inv_trigger [simp]: "lc_inv (trigger e c) = lc_inv c"
  by (simp add: lc_inv_def trigger_def)

lemma lc_inv_cleanTimer [simp]: "lc_inv (cleanTimer c) = lc_inv c"
  by (simp add: lc_inv_def cleanTimer_def)

lemma lc_inv_tick [simp]: "lc_inv (tick c) = lc_inv c"
  by (simp add: tick_def split: option.splits)

lemma lc_inv_startLoad: "lc_inv c \<Longrightarrow> lc_inv (startLoad c)"
  unfolding startLoad_def Let_def
  by (auto simp: lc_inv_def urlId_ok_def startLoad_level_def Let_def tick_def trigger_def split: option.splits if_splits)

lemma regroup_step_ok:
  assumes "\<forall>lv \<in> set (acc_levels a). urlId lv = 0 \<and> url lv \<noteq> []"
  shows "\<forall>lv \<in> set (acc_levels (regroup_step cf a ml)). urlId lv = 0 \<and> url lv \<noteq> []"
proof (cases "acc_levelSet a (m_bitrate ml)")
  case None
  then show ?thesis using assms by (auto simp: regroup_step_def Let_def)
next
  case (Some i)
  show ?thesis
  proof (cases "i < length (acc_levels a)")
    case True
    then have "urlId (acc_levels a ! i) = 0" using assms by simp
    with Some True assms show ?thesis
      by (auto simp: regroup_step_def Let_def set_conv_nth nth_list_update)
  next
    case False
    with Some assms show ?thesis by (simp add: regroup_step_def Let_def list_update_beyond)
  qed
qed

lemma foldl_regroup_ok:
  "\<forall>lv \<in> set (acc_levels a). urlId lv = 0 \<and> url lv \<noteq> [] \<Longrightarrow>
   \<forall>lv \<in> set (acc_levels (foldl (regroup_step cf) a mls)). urlId lv = 0 \<and> url lv \<noteq> []"
proof (induction mls arbitrary: a)
  case Nil
  then show ?case by simp
next
  case (Cons ml mls)
  show ?case
    unfolding foldl_Cons
    by (rule Cons.IH) (rule regroup_step_ok [OF Cons.prems])
qed

lemma regroup_ok: "\<forall>lv \<in> set (acc_levels (regroup cf mls)). urlId lv = 0 \<and> url lv \<noteq> []"
  unfolding regroup_def by (rule foldl_regroup_ok) simp

lemma onManifestLoaded_levels:
  "lc_levels (onManifestLoaded supported cf data c) = lc_levels c \<or>
   (\<exists>levels. lc_levels (onManifestLoaded supported cf data c) = Some levels \<and>
       (\<forall>lv \<in> set levels. urlId lv = 0 \<and> url lv \<noteq> []))"
proof -
  let ?a = "regroup cf (md_levels data)"
  let ?levels1 = "if acc_videoCodecFound ?a \<and> acc_audioCodecFound ?a
                     then filter (\<lambda>lv. truthy_str (videoCodec lv)) (acc_levels ?a)
                     else acc_levels ?a"
  let ?levels2 = "filter (codecs_supported supported) ?levels1"
  have sub: "set ?levels2 \<subseteq> set (acc_levels ?a)"
    by auto
  have r: "\<forall>lv \<in> set ?levels2. urlId lv = 0 \<and> url lv \<noteq> []"
    using regroup_ok [of cf "md_levels data"] sub by blast
  show ?thesis
  proof (cases ?levels2)
    case Nil
    have "lc_levels (onManifestLoaded supported cf data c) = lc_levels c"
      unfolding onManifestLoaded_def Let_def Nil
      by (simp add: trigger_def)
    then show ?thesis by simp
  next
    case (Cons l0 ls)
    have "lc_levels (onManifestLoaded supported cf data c) = Some (sort_key bitrate ?levels2)"
      unfolding onManifestLoaded_def Let_def
      unfolding Cons
      by (simp add: trigger_def split: option.splits)
    moreover have "\<forall>lv \<in> set (sort_key bitrate ?levels2). urlId lv = 0 \<and> url lv \<noteq> []"
      using r by (simp del: filter.simps filter_filter)
    ultimately show ?thesis by blast
  qed
qed

lemma onManifestLoaded_level [simp]:
  "lc_level (onManifestLoaded supported cf data c) = lc_level c"
  unfolding onManifestLoaded_def Let_def
  by (auto simp: trigger_def split: list.splits option.splits)

lemma lc_inv_onManifestLoaded: "lc_inv c \<Longrightarrow> lc_inv (onManifestLoaded supported cf data c)"
  using onManifestLoaded_levels [of supported cf data c]
  by (auto simp: lc_inv_def urlId_ok_def)

lemma urlId_ok_fields [simp]:
  "urlId_ok (lv\<lparr>level_prop := p\<rparr>) = urlId_ok lv"
  "urlId_ok (lv\<lparr>loadError := n\<rparr>) = urlId_ok lv"
  "urlId_ok (lv\<lparr>fragmentError := b\<rparr>) = urlId_ok lv"
  "urlId_ok (lv\<lparr>details := d\<rparr>) = urlId_ok lv"
  by (simp_all add: urlId_ok_def)

lemma lc_inv_upd:
  assumes inv: "lc_inv c" and lv: "lc_levels c = Some levels" and x: "urlId_ok x"
    and lv': "lc_levels c' = Some (levels[i := x])"
    and l': "lc_level c' = lc_level c \<or> lc_level c' = None \<or> (\<exists>l\<ge>0. lc_level c' = Some l)"
  shows "lc_inv c'"
proof -
  have "\<forall>lv \<in> set levels. urlId_ok lv" using inv lv by (simp add: lc_inv_def)
  then have "\<forall>lv \<in> set (levels[i := x]). urlId_ok lv" using x by (rule urlId_ok_update)
  then have a: "\<forall>ls. lc_levels c' = Some ls \<longrightarrow> (\<forall>lv \<in> set ls. urlId_ok lv)"
    using lv' by simp
  have "\<forall>l. lc_level c = Some l \<longrightarrow> 0 \<le> l" using inv by (simp add: lc_inv_def)
  then have b: "\<forall>l. lc_level c' = Some l \<longrightarrow> 0 \<le> l" using l' by fastforce
  from a b show ?thesis by (simp add: lc_inv_def)
qed

lemma lc_inv_same:
  assumes inv: "lc_inv c" and lv': "lc_levels c' = lc_levels c"
    and l': "lc_level c' = lc_level c \<or> lc_level c' = None \<or> (\<exists>l\<ge>0. lc_level c' = Some l)"
  shows "lc_inv c'"
proof -
  have a: "\<forall>ls. lc_levels c' = Some ls \<longrightarrow> (\<forall>lv \<in> set ls. urlId_ok lv)"
    using inv lv' by (simp add: lc_inv_def)
  have "\<forall>l. lc_level c = Some l \<longrightarrow> 0 \<le> l" using inv by (simp add: lc_inv_def)
  then have b: "\<forall>l. lc_level c' = Some l \<longrightarrow> 0 \<le> l" using l' by fastforce
  from a b show ?thesis by (simp add: lc_inv_def)
qed

lemma lc_inv_setLevelInternal:
  assumes inv: "lc_inv c" and r: "setLevelInternal l c = Inr c'"
  shows "lc_inv c'"
proof (cases "lc_levels c")
  case None
  with r show ?thesis by (simp add: setLevelInternal_def)
next
  case (Some levels)
  show ?thesis
  proof (cases "0 \<le> l \<and> l < int (length levels)")
    case False
    with r Some have "c' = trigger (LC_ERROR (invalid_level_idx l)) c"
      by (auto simp: setLevelInternal_def)
    with inv show ?thesis by simp
  next
    case True
    show ?thesis
    proof (cases "lc_level c = Some l")
      case same: True
      with r Some True have "lc_levels c' = lc_levels c \<and> lc_level c' = lc_level c"
        by (auto simp: setLevelInternal_def Let_def cleanTimer_def trigger_def
                 split: option.splits if_splits)
      with inv show ?thesis by (auto intro: lc_inv_same)
    next
      case diff: False
      from r Some True diff
      have "lc_levels c' = Some (levels[nat l := (levels ! nat l)\<lparr>level_prop := Some l\<rparr>])
            \<and> lc_level c' = Some l"
        by (auto simp: setLevelInternal_def Let_def cleanTimer_def trigger_def
                 split: option.splits if_splits)
      moreover have "levels ! nat l \<in> set levels"
        using True by (intro nth_mem) linarith
      then have "urlId_ok ((levels ! nat l)\<lparr>level_prop := Some l\<rparr>)"
        using inv Some by (simp add: lc_inv_def)
      ultimately show ?thesis
        using inv Some True by (intro lc_inv_upd [where c=c and levels=levels and i="nat l" and c'=c']) auto
    qed
  qed
qed

lemma lc_inv_set_level: "lc_inv c \<Longrightarrow> set_level l c = Inr c' \<Longrightarrow> lc_inv c'"
  unfolding set_level_def
  by (auto dest: lc_inv_setLevelInternal split: option.splits if_splits)

lemma lc_inv_set_manualLevel:
  assumes inv: "lc_inv c" and r: "set_manualLevel l c = Inr c'"
  shows "lc_inv c'"
proof -
  define c2 where "c2 = (if lc_startLevel c = None
     then c\<lparr>lc_manualLevel := l, lc_startLevel := Some l\<rparr> else c\<lparr>lc_manualLevel := l\<rparr>)"
  have inv2: "lc_inv c2" using inv by (simp add: lc_inv_def c2_def)
  have eq: "set_manualLevel l c = (if l \<noteq> -1 then set_level l c2 else Inr c2)"
    by (simp add: set_manualLevel_def Let_def c2_def)
  show ?thesis
  proof (cases "l = -1")
    case True
    with r eq have "c' = c2" by simp
    with inv2 show ?thesis by simp
  next
    case False
    with r eq have "set_level l c2 = Inr c'" by simp
    with inv2 show ?thesis by (rule lc_inv_set_level)
  qed
qed

lemma lc_inv_set_nextLoadLevel:
  assumes inv: "lc_inv c" and r: "set_nextLoadLevel l c = Inr c'"
  shows "lc_inv c'"
proof (cases "set_level l c")
  case (Inl e)
  with r show ?thesis by (simp add: set_nextLoadLevel_def)
next
  case (Inr c1)
  with inv have "lc_inv c1" by (auto dest: lc_inv_set_level)
  moreover from r Inr have "lc_levels c' = lc_levels c1 \<and> lc_level c' = lc_level c1"
    by (auto simp: set_nextLoadLevel_def split: if_splits)
  ultimately show ?thesis by (auto intro: lc_inv_same)
qed

lemma lc_inv_onError:
  assumes inv: "lc_inv c" and r: "onError data c = Inr (c', data')"
  shows "lc_inv c'"
proof (cases "fatal data")
  case True
  with r have "c' = c \<or> c' = cleanTimer c" by (auto simp: onError_def split: if_splits)
  with inv show ?thesis by auto
next
  case nf: False
  show ?thesis
  proof (cases "error_levelIndex data")
    case (Inl e)
    with r nf show ?thesis by (simp add: onError_def)
  next
    case (Inr t)
    obtain li le fe where t: "t = (li, le, fe)" by (cases t)
    show ?thesis
    proof (cases li)
      case None
      with r nf Inr t have "c' = c" by (simp add: onError_def)
      with inv show ?thesis by simp
    next
      case (Some i)
      show ?thesis
      proof (cases "lc_levels c")
        case None
        with r nf Inr t Some show ?thesis by (simp add: onError_def)
      next
        case lv: (Some levels)
        show ?thesis
        proof (cases "nth_opt levels i")
          case None
          with r nf Inr t Some lv show ?thesis by (simp add: onError_def)
        next
          case l0: (Some lv0)
          have "lv0 \<in> set levels" using nth_opt_Some [OF l0] by (metis nth_mem)
          then have ok0: "urlId_ok lv0"
            using inv lv by (simp add: lc_inv_def)
          let ?lv = "lv0\<lparr>loadError := loadError lv0 + 1, fragmentError := fe\<rparr>"
          let ?rot = "?lv\<lparr>urlId := (urlId ?lv + 1) smod int (length (url ?lv)), details := None\<rparr>"
          from r nf Inr t Some lv l0
          have shape: "(lc_levels c' = Some (levels[nat i := ?lv])
                          \<or> (1 < int (length (url lv0)) \<and> lc_levels c' = Some (levels[nat i := ?rot])))
                       \<and> (lc_level c' = lc_level c \<or> lc_level c' = None)"
            by (auto simp: onError_def Let_def cleanTimer_def split: if_splits)
          have okl: "urlId_ok ?lv" using ok0 by simp
          have okr: "1 < int (length (url lv0)) \<Longrightarrow> urlId_ok ?rot"
            using rotate_ok [OF ok0, where n="loadError lv0 + 1" and b=fe] by simp
          from shape have l': "lc_level c' = lc_level c \<or> lc_level c' = None
                                 \<or> (\<exists>l\<ge>0. lc_level c' = Some l)"
            by blast
          from shape consider
              (plain) "lc_levels c' = Some (levels[nat i := ?lv])"
            | (rot) "1 < int (length (url lv0))" "lc_levels c' = Some (levels[nat i := ?rot])"
            by blast
          then show ?thesis
          proof cases
            case plain
            show ?thesis by (rule lc_inv_upd [OF inv lv okl plain l'])
          next
            case rot
            show ?thesis by (rule lc_inv_upd [OF inv lv okr [OF rot(1)] rot(2) l'])
          qed
        qed
      qed
    qed
  qed
qed

lemma lc_inv_onFragLoaded:
  assumes inv: "lc_inv c" and r: "onFragLoaded frag c = Inr c'"
  shows "lc_inv c'"
proof (cases "\<exists>f levels lv. frag = Some f \<and> frag_type f = ''main'' \<and> lc_levels c = Some levels
                 \<and> nth_opt levels (frag_level f) = Some lv")
  case False
  with r have "c' = c"
    by (auto simp: onFragLoaded_def split: option.splits if_splits)
  with inv show ?thesis by simp
next
  case True
  then obtain f levels lv where h: "frag = Some f" "frag_type f = ''main''"
      "lc_levels c = Some levels" "nth_opt levels (frag_level f) = Some lv"
    by blast
  with r have c': "c' = c\<lparr>lc_levels := Some (levels[nat (frag_level f) :=
                               lv\<lparr>fragmentError := False, loadError := 0\<rparr>])\<rparr>"
    by (simp add: onFragLoaded_def)
  have "lv \<in> set levels" using nth_opt_Some [OF h(4)] by (metis nth_mem)
  then have "urlId_ok lv" using inv h(3) by (simp add: lc_inv_def)
  then show ?thesis
    using inv h(3) c' by (intro lc_inv_upd [where c=c and levels=levels and i="nat (frag_level f)" and c'=c']) simp_all
qed

lemma lc_inv_onLevelLoaded:
  assumes inv: "lc_inv c" and r: "onLevelLoaded data now c = Inr c'"
  shows "lc_inv c'"
proof (cases "lc_level c = Some (ll_level data)")
  case False
  with r have "c' = c" by (simp add: onLevelLoaded_def)
  with inv show ?thesis by simp
next
  case cur: True
  show ?thesis
  proof (cases "lc_levels c")
    case None
    with r cur show ?thesis by (simp add: onLevelLoaded_def)
  next
    case (Some levels)
    show ?thesis
    proof (cases "nth_opt levels (ll_level data)")
      case None
      with r cur Some show ?thesis by (simp add: onLevelLoaded_def)
    next
      case l0: (Some curLevel0)
      define curLevel where "curLevel = (if fragmentError curLevel0 = False
                                   then curLevel0\<lparr>loadError := 0\<rparr> else curLevel0)"
      from r cur Some l0
      have "lc_levels c' = Some (levels[nat (ll_level data) := curLevel]) \<and> lc_level c' = lc_level c"
        unfolding onLevelLoaded_def Let_def curLevel_def
        by (auto simp: cleanTimer_def split: if_splits)
      moreover have "curLevel0 \<in> set levels" using nth_opt_Some [OF l0] by (metis nth_mem)
      then have "urlId_ok curLevel" using inv Some by (simp add: lc_inv_def curLevel_def)
      ultimately show ?thesis
        using inv Some by (intro lc_inv_upd [where c=c and levels=levels and i="nat (ll_level data)" and c'=c']) simp_all
    qed
  qed
qed

lemma lc_inv_onLevelRemoved:
  assumes inv: "lc_inv c" and r: "onLevelRemoved i c = Inr c'"
  shows "lc_inv c'"
proof (cases "lc_levels c")
  case None
  with r show ?thesis by (simp add: onLevelRemoved_def)
next
  case (Some levels)
  with r have c': "c' = c\<lparr>lc_levels := Some (if 0 \<le> i then remove_index (nat i) levels
                                     else levels)\<rparr>"
    by (simp add: onLevelRemoved_def)
  have "set (if 0 \<le> i then remove_index (nat i) levels else levels) \<subseteq> set levels"
    using set_remove_index [of "nat i" levels] by simp
  with inv Some c' show ?thesis by (auto simp: lc_inv_def)
qed

lemma lc_inv_destroy: "lc_inv c \<Longrightarrow> lc_inv (destroy c)"
  by (simp add: lc_inv_def destroy_def cleanTimer_def)

lemma lc_inv_step:
  assumes inv: "lc_inv c" and r: "lc_step op c = Inr c'"
  shows "lc_inv c'"
proof (cases op)
  case (ManifestLoaded supported cf data)
  with inv r show ?thesis by (auto dest: lc_inv_onManifestLoaded)
next
  case (LevelLoaded data now)
  with inv r show ?thesis by (auto dest: lc_inv_onLevelLoaded)
next
  case (FragLoaded frag)
  with inv r show ?thesis by (auto dest: lc_inv_onFragLoaded)
next
  case (Error data)
  with inv r show ?thesis
    by (cases "onError data c") (auto dest: lc_inv_onError)
next
  case (LevelRemoved i)
  with inv r show ?thesis by (auto dest: lc_inv_onLevelRemoved)
next
  case (SetLevel l)
  with inv r show ?thesis by (auto dest: lc_inv_set_level)
next
  case (SetManualLevel l)
  with inv r show ?thesis by (auto dest: lc_inv_set_manualLevel)
next
  case (SetFirstLevel l)
  with inv r show ?thesis by (auto simp: lc_inv_def set_firstLevel_def)
next
  case (SetStartLevel l)
  with inv r show ?thesis by (auto simp: lc_inv_def set_startLevel_def)
next
  case (SetNextLoadLevel l)
  with inv r show ?thesis by (auto dest: lc_inv_set_nextLoadLevel)
next
  case StartLoad
  with inv r show ?thesis by (auto dest: lc_inv_startLoad)
next
  case StopLoad
  with inv r show ?thesis by (auto simp: lc_inv_def stopLoad_def)
next
  case TimerFires
  with inv r show ?thesis by (auto split: if_splits)
next
  case Destroy
  with inv r show ?thesis by (auto dest: lc_inv_destroy)
next
  case (HlsChanged nal m)
  with inv r show ?thesis by (auto simp: lc_inv_def)
next
  case (DetailsStored i d)
  show ?thesis
  proof (cases "\<exists>levels lv. lc_levels c = Some levels \<and> nth_opt levels i = Some lv")
    case False
    with r DetailsStored have "c' = c" by (auto split: option.splits)
    with inv show ?thesis by simp
  next
    case True
    then obtain levels lv where h: "lc_levels c = Some levels" "nth_opt levels i = Some lv"
      by blast
    with r DetailsStored
    have c': "c' = c\<lparr>lc_levels := Some (levels[nat i := lv\<lparr>details := Some d\<rparr>])\<rparr>"
      by simp
    have "lv \<in> set levels" using nth_opt_Some [OF h(2)] by (metis nth_mem)
    then have "urlId_ok (lv\<lparr>details := Some d\<rparr>)" using inv h(1) by (simp add: lc_inv_def)
    then show ?thesis
      using inv h(1) c' by (intro lc_inv_upd [where c=c and levels=levels and i="nat i" and c'=c']) simp_all
  qed
qed

lemma reachable_inv: "reachable c \<Longrightarrow> lc_inv c"
proof (induction rule: reachable.induct)
  case (reachable_init retryDelay cfgStart)
  show ?case by (simp add: lc_inv_def lc_init_def)
next
  case (reachable_step c op c')
  then show ?case by (blast intro: lc_inv_step)
qed

lemma level_urls_keep:
  assumes "i < length levels" and "url x = url (levels ! i)" and "urlId x = urlId (levels ! i)"
  shows "level_urls (levels[i := x]) = level_urls levels"
proof -
  have "level_urls (levels[i := x]) = (level_urls levels)[i := (url x, urlId x)]"
    by (simp add: level_urls_def map_update)
  also have "(url x, urlId x) = level_urls levels ! i"
    using assms by (simp add: level_urls_def)
  finally show ?thesis by simp
qed

lemma level_urls_update:
  "level_urls (levels[i := x]) = (level_urls levels)[i := (url x, urlId x)]"
  by (simp add: level_urls_def map_update)

lemma level_urls_remove:
  "level_urls (remove_index i levels) = remove_index i (level_urls levels)"
  by (induction i levels rule: remove_index.induct) (simp_all add: level_urls_def)

lemma urls_same: "lc_levels c' = lc_levels c \<Longrightarrow> urls_of c' = urls_of c"
  by (simp add: urls_of_def)

lemma urls_upd:
  assumes "lc_levels c = Some levels" and "lc_levels c' = Some (levels[i := x])"
    and "i < length levels" and "url x = url (levels ! i)" and "urlId x = urlId (levels ! i)"
  shows "urls_of c' = urls_of c"
  using assms by (simp add: urls_of_def level_urls_keep)

lemma urls_startLoad: "urls_of (startLoad c) = urls_of c"
proof (cases "lc_levels c")
  case None
  then have "lc_levels (startLoad c) = lc_levels c"
    by (simp add: startLoad_def Let_def tick_def trigger_def split: option.splits)
  then show ?thesis by (rule urls_same)
next
  case (Some levels)
  then have l': "lc_levels (startLoad c) = Some (map startLoad_level levels)"
    by (simp add: startLoad_def Let_def tick_def trigger_def split: option.splits)
  have k: "url (startLoad_level lv) = url lv \<and> urlId (startLoad_level lv) = urlId lv" for lv
    by (simp add: startLoad_level_def Let_def split: option.splits)
  show ?thesis
    using Some l' k by (simp add: urls_of_def level_urls_def)
qed

lemma urls_setLevelInternal:
  assumes r: "setLevelInternal l c = Inr c'"
  shows "urls_of c' = urls_of c"
proof (cases "lc_levels c")
  case None
  with r show ?thesis by (simp add: setLevelInternal_def)
next
  case (Some levels)
  show ?thesis
  proof (cases "0 \<le> l \<and> l < int (length levels)")
    case False
    with r Some have "c' = trigger (LC_ERROR (invalid_level_idx l)) c"
      by (auto simp: setLevelInternal_def)
    then have "lc_levels c' = lc_levels c" by (simp add: trigger_def)
    then show ?thesis by (rule urls_same)
  next
    case True
    show ?thesis
    proof (cases "lc_level c = Some l")
      case same: True
      with r Some True have "lc_levels c' = lc_levels c"
        by (auto simp: setLevelInternal_def Let_def cleanTimer_def trigger_def
                 split: option.splits if_splits)
      then show ?thesis by (rule urls_same)
    next
      case diff: False
      from r Some True diff
      have l': "lc_levels c' = Some (levels[nat l := (levels ! nat l)\<lparr>level_prop := Some l\<rparr>])"
        by (auto simp: setLevelInternal_def Let_def cleanTimer_def trigger_def
                 split: option.splits if_splits)
      have i: "nat l < length levels" using True by linarith
      show ?thesis
        by (rule urls_upd [OF Some l' i]) simp_all
    qed
  qed
qed

lemma urls_set_level: "set_level l c = Inr c' \<Longrightarrow> urls_of c' = urls_of c"
  unfolding set_level_def
  by (auto dest: urls_setLevelInternal split: option.splits if_splits)

lemma urls_set_manualLevel:
  assumes r: "set_manualLevel l c = Inr c'"
  shows "urls_of c' = urls_of c"
proof -
  define c2 where "c2 = (if lc_startLevel c = None
     then c\<lparr>lc_manualLevel := l, lc_startLevel := Some l\<rparr> else c\<lparr>lc_manualLevel := l\<rparr>)"
  have l2: "urls_of c2 = urls_of c" by (simp add: c2_def urls_of_def)
  have eq: "set_manualLevel l c = (if l \<noteq> -1 then set_level l c2 else Inr c2)"
    by (simp add: set_manualLevel_def Let_def c2_def)
  show ?thesis
  proof (cases "l = -1")
    case True
    with r eq have "c' = c2" by simp
    with l2 show ?thesis by simp
  next
    case False
    with r eq have "set_level l c2 = Inr c'" by simp
    then have "urls_of c' = urls_of c2" by (rule urls_set_level)
    with l2 show ?thesis by simp
  qed
qed

lemma urls_set_nextLoadLevel:
  assumes r: "set_nextLoadLevel l c = Inr c'"
  shows "urls_of c' = urls_of c"
proof (cases "set_level l c")
  case (Inl e)
  with r show ?thesis by (simp add: set_nextLoadLevel_def)
next
  case (Inr c1)
  then have "urls_of c1 = urls_of c" by (rule urls_set_level)
  moreover from r Inr have "lc_levels c' = lc_levels c1"
    by (auto simp: set_nextLoadLevel_def split: if_splits)
  ultimately show ?thesis by (simp add: urls_of_def)
qed

lemma urls_onFragLoaded:
  assumes r: "onFragLoaded frag c = Inr c'"
  shows "urls_of c' = urls_of c"
proof (cases "\<exists>f levels lv. frag = Some f \<and> frag_type f = ''main'' \<and> lc_levels c = Some levels
                 \<and> nth_opt levels (frag_level f) = Some lv")
  case False
  with r have "c' = c"
    by (auto simp: onFragLoaded_def split: option.splits if_splits)
  then show ?thesis by simp
next
  case True
  then obtain f levels lv where h: "frag = Some f" "frag_type f = ''main''"
      "lc_levels c = Some levels" "nth_opt levels (frag_level f) = Some lv"
    by blast
  with r have c': "lc_levels c' = Some (levels[nat (frag_level f) :=
                               lv\<lparr>fragmentError := False, loadError := 0\<rparr>])"
    by (auto simp add: onFragLoaded_def)
  have i: "nat (frag_level f) < length levels" "levels ! nat (frag_level f) = lv"
    using nth_opt_Some [OF h(4)] by simp_all
  show ?thesis
    by (rule urls_upd [OF h(3) c' i(1)]) (simp_all add: i(2))
qed

lemma urls_onLevelLoaded:
  assumes r: "onLevelLoaded data now c = Inr c'"
  shows "urls_of c' = urls_of c"
proof (cases "lc_level c = Some (ll_level data)")
  case False
  with r have "c' = c" by (simp add: onLevelLoaded_def)
  then show ?thesis by simp
next
  case cur: True
  show ?thesis
  proof (cases "lc_levels c")
    case None
    with r cur show ?thesis by (simp add: onLevelLoaded_def)
  next
    case (Some levels)
    show ?thesis
    proof (cases "nth_opt levels (ll_level data)")
      case None
      with r cur Some show ?thesis by (simp add: onLevelLoaded_def)
    next
      case l0: (Some curLevel0)
      define curLevel where "curLevel = (if fragmentError curLevel0 = False
                                   then curLevel0\<lparr>loadError := 0\<rparr> else curLevel0)"
      from r cur Some l0
      have l': "lc_levels c' = Some (levels[nat (ll_level data) := curLevel])"
        unfolding onLevelLoaded_def Let_def curLevel_def
        by (auto simp: cleanTimer_def split: if_splits)
      have i: "nat (ll_level data) < length levels" "levels ! nat (ll_level data) = curLevel0"
        using nth_opt_Some [OF l0] by simp_all
      show ?thesis
        by (rule urls_upd [OF Some l' i(1)]) (simp_all add: i(2) curLevel_def)
    qed
  qed
qed

lemma urls_onLevelRemoved:
  assumes r: "onLevelRemoved i c = Inr c'"
  shows "urls_of c' =
     map_option (\<lambda>us. if 0 \<le> i then remove_index (nat i) us else us) (urls_of c)"
proof (cases "lc_levels c")
  case None
  with r show ?thesis by (simp add: onLevelRemoved_def)
next
  case (Some levels)
  with r have c': "lc_levels c' = Some (if 0 \<le> i then remove_index (nat i) levels else levels)"
    by (auto simp add: onLevelRemoved_def)
  show ?thesis
    using Some c' by (simp add: urls_of_def level_urls_remove)
qed

lemma error_levelIndex_rotating:
  "rotating_error data i \<Longrightarrow> \<exists>le fe. error_levelIndex data = Inr (Some i, le, fe)"
  by (auto simp: rotating_error_def load_error_on_def error_levelIndex_def split: option.splits)

lemma rotating_error_levelIndex:
  "error_levelIndex data = Inr (Some i, le, fe) \<Longrightarrow> \<not> fatal data \<Longrightarrow> rotating_error data i"
  by (auto simp: rotating_error_def load_error_on_def error_levelIndex_def
           split: option.splits if_splits)

lemma onError_rotation:
  assumes e: "rotating_error data i" and lv: "lc_levels c = Some levels"
    and l: "nth_opt levels i = Some lv" and ok: "urlId_ok lv"
    and n: "loadError lv + 1 < length (url lv)"
  shows "\<exists>c' data'. onError data c = Inr (c', data') \<and>
     urls_of c' = Some ((level_urls levels)[nat i :=
                          (url lv, (urlId lv + 1) mod int (length (url lv)))])"
proof -
  have nf: "\<not> fatal data" using e by (auto simp: rotating_error_def load_error_on_def)
  obtain le fe where li: "error_levelIndex data = Inr (Some i, le, fe)"
    using error_levelIndex_rotating [OF e] by blast
  have m: "(urlId lv + 1) smod int (length (url lv)) = (urlId lv + 1) mod int (length (url lv))"
  proof (rule smod_nonneg)
    show "0 \<le> urlId lv + 1" using ok by (simp add: urlId_ok_def)
    show "0 < int (length (url lv))" using n by linarith
  qed
  have "onError data c =
     Inr (c\<lparr>lc_levels := Some (levels[nat i :=
            lv\<lparr>loadError := loadError lv + 1, fragmentError := fe,
               urlId := (urlId lv + 1) smod int (length (url lv)), details := None\<rparr>])\<rparr>, data)"
    unfolding onError_def using nf li lv l n by (simp add: Let_def)
  then show ?thesis
    by (simp add: urls_of_def level_urls_update m)
qed

lemma onError_change:
  assumes r: "onError data c = Inr (c', data')" and ch: "urls_of c' \<noteq> urls_of c"
  shows "\<exists>i levels lv. rotating_error data i \<and> lc_levels c = Some levels
           \<and> nth_opt levels i = Some lv \<and> 1 < length (url lv)
           \<and> loadError lv + 1 < length (url lv)"
proof (cases "fatal data")
  case True
  with r have "c' = c \<or> c' = cleanTimer c" by (auto simp: onError_def split: if_splits)
  then have "lc_levels c' = lc_levels c" by (auto simp: cleanTimer_def)
  with ch show ?thesis by (simp add: urls_of_def)
next
  case nf: False
  show ?thesis
  proof (cases "error_levelIndex data")
    case (Inl e)
    with r nf show ?thesis by (simp add: onError_def)
  next
    case (Inr t)
    obtain li le fe where t: "t = (li, le, fe)" by (cases t)
    show ?thesis
    proof (cases li)
      case None
      with r nf Inr t have "c' = c" by (simp add: onError_def)
      with ch show ?thesis by simp
    next
      case (Some i)
      have re: "rotating_error data i"
        using Inr t Some nf by (simp add: rotating_error_levelIndex)
      show ?thesis
      proof (cases "lc_levels c")
        case None
        with r nf Inr t Some show ?thesis by (simp add: onError_def)
      next
        case lv: (Some levels)
        show ?thesis
        proof (cases "nth_opt levels i")
          case None
          with r nf Inr t Some lv show ?thesis by (simp add: onError_def)
        next
          case l0: (Some lv0)
          have i: "nat i < length levels" "levels ! nat i = lv0"
            using nth_opt_Some [OF l0] by simp_all
          let ?lv = "lv0\<lparr>loadError := loadError lv0 + 1, fragmentError := fe\<rparr>"
          show ?thesis
          proof (cases "1 < length (url lv0) \<and> loadError lv0 + 1 < length (url lv0)")
            case True
            with re lv l0 show ?thesis by blast
          next
            case False
            with r nf Inr t Some lv l0
            have "lc_levels c' = Some (levels[nat i := ?lv])"
              by (auto simp: onError_def Let_def cleanTimer_def split: if_splits)
            from urls_upd [OF lv this i(1)] have "urls_of c' = urls_of c"
              by (simp add: i(2))
            with ch show ?thesis by simp
          qed
        qed
      qed
    qed
  qed
qed

lemma urls_step:
  assumes r: "lc_step op c = Inr c'" and nm: "\<not> is_ManifestLoaded op"
    and ne: "\<not> is_Error op" and nr: "\<not> is_LevelRemoved op"
  shows "urls_of c' = urls_of c"
proof (cases op)
  case (ManifestLoaded supported cf data)
  with nm show ?thesis by simp
next
  case (LevelLoaded data now)
  with r show ?thesis by (auto dest: urls_onLevelLoaded)
next
  case (FragLoaded frag)
  with r show ?thesis by (auto dest: urls_onFragLoaded)
next
  case (Error data)
  with ne show ?thesis by simp
next
  case (LevelRemoved i)
  with nr show ?thesis by simp
next
  case (SetLevel l)
  with r show ?thesis by (auto dest: urls_set_level)
next
  case (SetManualLevel l)
  with r show ?thesis by (auto dest: urls_set_manualLevel)
next
  case (SetFirstLevel l)
  with r show ?thesis by (auto simp: set_firstLevel_def urls_of_def)
next
  case (SetStartLevel l)
  with r show ?thesis by (auto simp: set_startLevel_def urls_of_def)
next
  case (SetNextLoadLevel l)
  with r show ?thesis by (auto dest: urls_set_nextLoadLevel)
next
  case StartLoad
  with r show ?thesis by (auto simp: urls_startLoad)
next
  case StopLoad
  with r show ?thesis by (auto simp: stopLoad_def urls_of_def)
next
  case TimerFires
  with r have "lc_levels c' = lc_levels c"
    by (auto simp: tick_def trigger_def split: if_splits option.splits)
  then show ?thesis by (rule urls_same)
next
  case Destroy
  with r have "lc_levels c' = lc_levels c" by (auto simp: destroy_def cleanTimer_def)
  then show ?thesis by (rule urls_same)
next
  case (HlsChanged nal m)
  with r show ?thesis by (auto simp: urls_of_def)
next
  case (DetailsStored i d)
  show ?thesis
  proof (cases "\<exists>levels lv. lc_levels c = Some levels \<and> nth_opt levels i = Some lv")
    case False
    with r DetailsStored have "c' = c" by (auto split: option.splits)
    then show ?thesis by simp
  next
    case True
    then obtain levels lv where h: "lc_levels c = Some levels" "nth_opt levels i = Some lv"
      by blast
    with r DetailsStored
    have c': "lc_levels c' = Some (levels[nat i := lv\<lparr>details := Some d\<rparr>])"
      by auto
    have i: "nat i < length levels" "levels ! nat i = lv"
      using nth_opt_Some [OF h(2)] by simp_all
    show ?thesis
      by (rule urls_upd [OF h(1) c' i(1)]) (simp_all add: i(2))
  qed
qed

lemma error_levelIndex_load:
  "load_error_on data i \<Longrightarrow>
   error_levelIndex data = Inr (Some i, err_details data \<in> {LEVEL_LOAD_ERROR, LEVEL_LOAD_TIMEOUT},
                                err_details data \<notin> {LEVEL_LOAD_ERROR, LEVEL_LOAD_TIMEOUT})"
  by (auto simp: load_error_on_def error_levelIndex_def split: option.splits)

lemma onError_rotates:
  assumes "lc_levels c = Some levels" and "nth_opt levels i = Some lv" and "load_error_on data i"
    and "loadError lv + 1 < length (url lv)"
  shows "onError data c =
     Inr (c\<lparr>lc_levels := Some (levels[nat i :=
            lv\<lparr>loadError := loadError lv + 1,
               fragmentError := err_details data \<notin> {LEVEL_LOAD_ERROR, LEVEL_LOAD_TIMEOUT},
               urlId := (urlId lv + 1) smod int (length (url lv)),
               details := None\<rparr>])\<rparr>, data)"
proof -
  have nf: "\<not> fatal data" using assms(3) by (simp add: load_error_on_def)
  show ?thesis
    unfolding onError_def
    using assms(1,2,4) nf error_levelIndex_load [OF assms(3)]
    by (simp add: Let_def)
qed

lemma onError_exhausted:
  assumes "lc_levels c = Some levels" and "nth_opt levels i = Some lv" and "load_error_on data i"
    and "length (url lv) \<le> loadError lv + 1"
  shows "\<exists>c' data'. onError data c = Inr (c', data') \<and>
     lc_levels c' = Some (levels[nat i :=
            lv\<lparr>loadError := loadError lv + 1,
               fragmentError := err_details data \<notin> {LEVEL_LOAD_ERROR, LEVEL_LOAD_TIMEOUT}\<rparr>]) \<and>
     (lc_manualLevel c = -1 \<and> i \<noteq> 0 \<longrightarrow>
        data' = data \<and> nextAutoLevel c' = Some (i - 1) \<and> lc_level c' = lc_level c)"
proof -
  have nf: "\<not> fatal data" using assms(3) by (simp add: load_error_on_def)
  have i0: "0 \<le> i" using nth_opt_Some [OF assms(2)] by simp
  show ?thesis
  proof (cases "lc_manualLevel c = -1 \<and> i \<noteq> 0")
    case True
    then have "max 0 (i - 1) = i - 1" using i0 by simp
    then show ?thesis
      unfolding onError_def
      using True assms(1,2,4) nf error_levelIndex_load [OF assms(3)]
      by (simp add: Let_def)
  next
    case False
    then show ?thesis
      unfolding onError_def
      using assms(1,2,4) nf error_levelIndex_load [OF assms(3)]
      by (auto simp: Let_def cleanTimer_def)
  qed
qed

lemma ex_manifest_loaded:
  "lc_levels (onManifestLoaded (\<lambda>_ _. True) False ex_manifest (lc_init 1000 None)) =
     Some [ex_level 300 [''lo-a''] None, ex_level 800 [''hi-a'', ''hi-b''] None]"
  by (simp add: onManifestLoaded_def ex_manifest_def regroup_def regroup_step_def Let_def
        truthy_str_def codecs_supported_def ex_level_def lc_init_def trigger_def)

lemma ex_reachable:
  "reachable (onManifestLoaded (\<lambda>_ _. True) False ex_manifest (lc_init 1000 None))"
  by (rule reachable_step [OF reachable_init, where op = "ManifestLoaded (\<lambda>_ _. True) False ex_manifest"])
     simp

lemma ex_loaded_levels:
  "lc_levels ex_loaded = Some [ex_level 300 [''lo-a''] None, ex_level 800 [''hi-a'', ''hi-b''] None]"
  unfolding ex_loaded_def by (rule ex_manifest_loaded)

lemma ex_loaded_reachable: "reachable ex_loaded"
  unfolding ex_loaded_def by (rule ex_reachable)

lemma ex_frag_error_load: "load_error_on (ex_frag_error l) l"
  by (simp add: load_error_on_def ex_frag_error_def)

lemma ex_rotated_reachable: "reachable ex_rotated"
proof -
  let ?hi = "ex_level 800 [''hi-a'', ''hi-b''] None"
  let ?c1 = "ex_loaded\<lparr>lc_levels := Some [ex_level 300 [''lo-a''] None,
               ?hi\<lparr>loadError := 1, fragmentError := True, urlId := 1, details := None\<rparr>]\<rparr>"
  let ?f = "\<lparr>sn = SN 8, cc = 0, frag_level = 1, frag_type = ''main'', start = 10,
             duration = 10, encrypted = False, frag_data = None\<rparr>"
  have hi: "nth_opt [ex_level 300 [''lo-a''] None, ?hi] 1 = Some ?hi"
    by (simp add: nth_opt_def)
  have n: "loadError ?hi + 1 < length (url ?hi)" by (simp add: ex_level_def)
  have "onError (ex_frag_error 1) ex_loaded = Inr (?c1, ex_frag_error 1)"
    using onError_rotates [OF ex_loaded_levels hi ex_frag_error_load n]
    by (simp add: ex_level_def ex_frag_error_def smod_int_alt_def)
  then have s1: "lc_step (Error (ex_frag_error 1)) ex_loaded = Inr ?c1" by simp
  have s2: "lc_step (FragLoaded (Some ?f)) ?c1 = Inr ex_rotated"
    by (simp add: onFragLoaded_def nth_opt_def ex_rotated_def ex_level_def)
  from ex_loaded_reachable s1 have "reachable ?c1" by (rule reachable_step)
  from this s2 show ?thesis by (rule reachable_step)
qed

subsection \<open>Claims\<close>

text \<open>
  Claim C3. Take a level with \<open>N > 1\<close> redundant URLs, a load-error counter of 0 and
  a selected URL index within range, and a run of consecutive non-fatal fragment, key or
  level load errors about it. After each \<open>k < N\<close> of them the selected URL index has
  moved \<open>k\<close> places on, modulo \<open>N\<close>, the counter is \<open>k\<close>, the cached details are
  gone once \<open>k > 0\<close>, and no switch down has been requested. The \<open>N\<close>-th error leaves
  the index where the \<open>(N-1)\<close>-th put it and, when the level is not pinned manually and
  is not level 0, sets \<open>nextAutoLevel\<close> to the level index minus one.
\<close>

theorem redundant_failover:
  assumes lv: "lc_levels c = Some levels" and l: "nth_opt levels i = Some lv"
    and N: "N = length (url lv)" "1 < N" and le0: "loadError lv = 0" and u0: "0 \<le> urlId lv" "urlId lv < int N"
    and d: "load_error_on data i"
  shows "(\<forall>k < N. \<exists>c\<^sub>k levels\<^sub>k.
            onError_run k data c = Inr c\<^sub>k \<and> lc_levels c\<^sub>k = Some levels\<^sub>k \<and>
            length levels\<^sub>k = length levels \<and>
            url (levels\<^sub>k ! nat i) = url lv \<and>
            urlId (levels\<^sub>k ! nat i) = (urlId lv + int k) mod int N \<and>
            loadError (levels\<^sub>k ! nat i) = k \<and>
            (0 < k \<longrightarrow> details (levels\<^sub>k ! nat i) = None) \<and>
            nextAutoLevel c\<^sub>k = nextAutoLevel c \<and> lc_manualLevel c\<^sub>k = lc_manualLevel c)
       \<and> (\<exists>c\<^sub>N levels\<^sub>N.
            onError_run N data c = Inr c\<^sub>N \<and> lc_levels c\<^sub>N = Some levels\<^sub>N \<and>
            urlId (levels\<^sub>N ! nat i) = (urlId lv + int (N - 1)) mod int N \<and>
            loadError (levels\<^sub>N ! nat i) = N \<and>
            (lc_manualLevel c = -1 \<and> i \<noteq> 0 \<longrightarrow> nextAutoLevel c\<^sub>N = Some (i - 1)))"
proof -
  have i: "0 \<le> i" "nat i < length levels" "levels ! nat i = lv"
    using nth_opt_Some [OF l] by simp_all
  have step: "\<exists>c\<^sub>k levels\<^sub>k.
            onError_run k data c = Inr c\<^sub>k \<and> lc_levels c\<^sub>k = Some levels\<^sub>k \<and>
            length levels\<^sub>k = length levels \<and>
            url (levels\<^sub>k ! nat i) = url lv \<and>
            urlId (levels\<^sub>k ! nat i) = (urlId lv + int k) mod int N \<and>
            loadError (levels\<^sub>k ! nat i) = k \<and>
            (0 < k \<longrightarrow> details (levels\<^sub>k ! nat i) = None) \<and>
            nextAutoLevel c\<^sub>k = nextAutoLevel c \<and> lc_manualLevel c\<^sub>k = lc_manualLevel c"
    if "k < N" for k
    using that
  proof (induction k)
    case 0
    show ?case using lv i le0 u0 by simp
  next
    case (Suc k)
    then obtain ck levelsk where h: "onError_run k data c = Inr ck" "lc_levels ck = Some levelsk"
       "length levelsk = length levels" "url (levelsk ! nat i) = url lv"
       "urlId (levelsk ! nat i) = (urlId lv + int k) mod int N"
       "loadError (levelsk ! nat i) = k" "nextAutoLevel ck = nextAutoLevel c"
       "lc_manualLevel ck = lc_manualLevel c"
      by auto
    have nk: "nth_opt levelsk i = Some (levelsk ! nat i)"
      using i h(3) by (simp add: nth_opt_def)
    have "loadError (levelsk ! nat i) + 1 < length (url (levelsk ! nat i))"
      using h(4,6) Suc.prems N by simp
    from onError_rotates [OF h(2) nk d this]
    have r: "onError_run (Suc k) data c = Inr (ck\<lparr>lc_levels := Some (levelsk[nat i :=
            (levelsk ! nat i)\<lparr>loadError := k + 1,
               fragmentError := err_details data \<notin> {LEVEL_LOAD_ERROR, LEVEL_LOAD_TIMEOUT},
               urlId := (urlId (levelsk ! nat i) + 1) smod int N,
               details := None\<rparr>])\<rparr>)"
      using h(1,4,6) N by simp
    have "(urlId (levelsk ! nat i) + 1) smod int N = ((urlId lv + int k) mod int N + 1) mod int N"
      unfolding h(5)
    proof (rule smod_nonneg)
      have "0 \<le> (urlId lv + int k) mod int N" using N(2) by (intro pos_mod_sign) linarith
      then show "0 \<le> (urlId lv + int k) mod int N + 1" by linarith
      show "0 < int N" using N(2) by linarith
    qed
    also have "\<dots> = (urlId lv + int k + 1) mod int N"
      by (rule mod_add_left_eq)
    also have "urlId lv + int k + 1 = urlId lv + int (Suc k)"
      by simp
    finally have u: "(urlId (levelsk ! nat i) + 1) smod int N = (urlId lv + int (Suc k)) mod int N" .
    show ?case
      unfolding r using h i u by simp
  qed
  have first: "\<forall>k < N. \<exists>c\<^sub>k levels\<^sub>k.
            onError_run k data c = Inr c\<^sub>k \<and> lc_levels c\<^sub>k = Some levels\<^sub>k \<and>
            length levels\<^sub>k = length levels \<and>
            url (levels\<^sub>k ! nat i) = url lv \<and>
            urlId (levels\<^sub>k ! nat i) = (urlId lv + int k) mod int N \<and>
            loadError (levels\<^sub>k ! nat i) = k \<and>
            (0 < k \<longrightarrow> details (levels\<^sub>k ! nat i) = None) \<and>
            nextAutoLevel c\<^sub>k = nextAutoLevel c \<and> lc_manualLevel c\<^sub>k = lc_manualLevel c"
    using step by blast
  obtain k where k: "N = Suc k" using N(2) by (cases N) auto
  from step [of k] k obtain ck levelsk where h: "onError_run k data c = Inr ck" "lc_levels ck = Some levelsk"
       "length levelsk = length levels" "url (levelsk ! nat i) = url lv"
       "urlId (levelsk ! nat i) = (urlId lv + int k) mod int N"
       "loadError (levelsk ! nat i) = k" "nextAutoLevel ck = nextAutoLevel c"
       "lc_manualLevel ck = lc_manualLevel c"
    by auto
  have nk: "nth_opt levelsk i = Some (levelsk ! nat i)"
    using i h(3) by (simp add: nth_opt_def)
  have "length (url (levelsk ! nat i)) \<le> loadError (levelsk ! nat i) + 1"
    using h(4,6) N k by simp
  from onError_exhausted [OF h(2) nk d this]
  obtain c' data' where e: "onError data ck = Inr (c', data')"
     "lc_levels c' = Some (levelsk[nat i :=
            (levelsk ! nat i)\<lparr>loadError := loadError (levelsk ! nat i) + 1,
               fragmentError := err_details data \<notin> {LEVEL_LOAD_ERROR, LEVEL_LOAD_TIMEOUT}\<rparr>])"
     "lc_manualLevel ck = -1 \<and> i \<noteq> 0 \<longrightarrow> nextAutoLevel c' = Some (i - 1)"
    by blast
  have "onError_run N data c = Inr c'" using h(1) e(1) k by simp
  moreover have "urlId ((levelsk[nat i :=
            (levelsk ! nat i)\<lparr>loadError := loadError (levelsk ! nat i) + 1,
               fragmentError := err_details data \<notin> {LEVEL_LOAD_ERROR, LEVEL_LOAD_TIMEOUT}\<rparr>]) ! nat i)
       = (urlId lv + int (N - 1)) mod int N"
    using i h(3,5) k by simp
  moreover have "loadError ((levelsk[nat i :=
            (levelsk ! nat i)\<lparr>loadError := loadError (levelsk ! nat i) + 1,
               fragmentError := err_details data \<notin> {LEVEL_LOAD_ERROR, LEVEL_LOAD_TIMEOUT}\<rparr>]) ! nat i) = N"
    using i h(3,6) k by simp
  ultimately have last: "\<exists>c\<^sub>N levels\<^sub>N.
            onError_run N data c = Inr c\<^sub>N \<and> lc_levels c\<^sub>N = Some levels\<^sub>N \<and>
            urlId (levels\<^sub>N ! nat i) = (urlId lv + int (N - 1)) mod int N \<and>
            loadError (levels\<^sub>N ! nat i) = N \<and>
            (lc_manualLevel c = -1 \<and> i \<noteq> 0 \<longrightarrow> nextAutoLevel c\<^sub>N = Some (i - 1))"
    using e(2,3) h(8) by auto
  from first last show ?thesis by blast
qed

text \<open>The theorem of claim C3 at a concrete input.\<close>

theorem redundant_failover_witness:
  "\<exists>c3 levels3. onError_run 3 (ex_frag_error 1)
        (ex_lc [ex_level 300 [''lo-a''] None, ex_level 800 [''a'', ''b'', ''c''] None] (Some 1)) = Inr c3
      \<and> lc_levels c3 = Some levels3 \<and> urlId (levels3 ! 1) = 2 \<and> loadError (levels3 ! 1) = 3
      \<and> nextAutoLevel c3 = Some 0"
proof -
  let ?ls = "[ex_level 300 [''lo-a''] None, ex_level 800 [''a'', ''b'', ''c''] None]"
  let ?c = "ex_lc ?ls (Some 1)"
  have h1: "lc_levels ?c = Some ?ls" by (simp add: ex_lc_def)
  have h2: "nth_opt ?ls 1 = Some (ex_level 800 [''a'', ''b'', ''c''] None)"
    by (simp add: nth_opt_def)
  have h3: "3 = length (url (ex_level 800 [''a'', ''b'', ''c''] None))" "1 < (3::nat)"
    by (simp_all add: ex_level_def)
  have h4: "loadError (ex_level 800 [''a'', ''b'', ''c''] None) = 0"
      "0 \<le> urlId (ex_level 800 [''a'', ''b'', ''c''] None)"
      "urlId (ex_level 800 [''a'', ''b'', ''c''] None) < int 3"
    by (simp_all add: ex_level_def)
  have h5: "load_error_on (ex_frag_error 1) 1"
    by (simp add: load_error_on_def ex_frag_error_def)
  have m: "lc_manualLevel ?c = -1" by (simp add: ex_lc_def lc_init_def)
  from redundant_failover [OF h1 h2 h3 h4 h5]
  have "\<exists>c\<^sub>N levels\<^sub>N.
            onError_run 3 (ex_frag_error 1) ?c = Inr c\<^sub>N \<and> lc_levels c\<^sub>N = Some levels\<^sub>N \<and>
            urlId (levels\<^sub>N ! nat 1) = (urlId (ex_level 800 [''a'', ''b'', ''c''] None) + int (3 - 1)) mod int 3 \<and>
            loadError (levels\<^sub>N ! nat 1) = 3 \<and>
            (lc_manualLevel ?c = -1 \<and> (1::int) \<noteq> 0 \<longrightarrow> nextAutoLevel c\<^sub>N = Some (1 - 1))"
    by (rule conjunct2)
  then show ?thesis
    using m by (simp add: ex_level_def)
qed

text \<open>
  Claim C4 as stated fails on the code: see the concrete input below.
\<close>

theorem live_reload_interval_counterexample:
  "map_sum id timer (onLevelLoaded cx_loaded 0 (ex_lc [ex_level 800 [''hi-a''] None] (Some 0)))
     = Inr (Some 5000)
   \<and> spec_reloadInterval None cx_loaded 0 = 10000"
  by (simp add: cx_loaded_def ex_lc_def ex_level_def ex_details_def onLevelLoaded_def
        reloadInterval_def Math_round_def spec_reloadInterval_def nth_opt_def lc_init_def Let_def)

text \<open>
  Claim C4, as amended. A LEVEL_LOADED event for the current level always returns. For
  a live playlist it arms the timer with: 1000 times the average target duration when
  that is set and not zero, else 1000 times the target duration; halved when the level
  has cached details with the same end sequence number; less the request latency;
  rounded to the nearest integer; and floored at 1000. For a playlist that is not live
  the timer is cleared.
\<close>

theorem live_reload_interval:
  assumes "lc_level c = Some (ll_level data)" and "lc_levels c = Some levels"
    and "nth_opt levels (ll_level data) = Some curLevel"
  shows "\<exists>c'. onLevelLoaded data now c = Inr c' \<and>
           timer c' =
             (if live (ll_details data) then
                Some (max 1000 (of_int \<lfloor>
                  (1000 * (case averagetargetduration (ll_details data) of
                             Some a \<Rightarrow> if a \<noteq> 0 then a else targetduration (ll_details data)
                           | None \<Rightarrow> targetduration (ll_details data)))
                    / (if (case details curLevel of
                             Some cur \<Rightarrow> endSN (ll_details data) = endSN cur
                           | None \<Rightarrow> False) then 2 else 1)
                    - (now - ll_trequest data) + 1 / 2\<rfloor>))
              else None)"
proof (cases "live (ll_details data)")
  case False
  with assms show ?thesis
    by (simp add: onLevelLoaded_def Let_def cleanTimer_def)
next
  case True
  define curLevel' where "curLevel' = (if fragmentError curLevel = False
                                   then curLevel\<lparr>loadError := 0\<rparr> else curLevel)"
  have d: "details curLevel' = details curLevel" by (simp add: curLevel'_def)
  have "onLevelLoaded data now c =
     Inr (c\<lparr>lc_levels := Some (levels[nat (ll_level data) := curLevel']),
            timer := Some (reloadInterval (details curLevel') data now)\<rparr>)"
    using assms True by (simp add: onLevelLoaded_def Let_def curLevel'_def)
  moreover have "reloadInterval (details curLevel) data now =
     max 1000 (of_int \<lfloor>
                  (1000 * (case averagetargetduration (ll_details data) of
                             Some a \<Rightarrow> if a \<noteq> 0 then a else targetduration (ll_details data)
                           | None \<Rightarrow> targetduration (ll_details data)))
                    / (if (case details curLevel of
                             Some cur \<Rightarrow> endSN (ll_details data) = endSN cur
                           | None \<Rightarrow> False) then 2 else 1)
                    - (now - ll_trequest data) + 1 / 2\<rfloor>)"
    by (cases "details curLevel") (simp_all add: reloadInterval_def Let_def Math_round_def)
  ultimately show ?thesis using True d by simp
qed

text \<open>The theorem of claim C4 at a concrete input.\<close>

theorem live_reload_interval_witness:
  "\<exists>c'. onLevelLoaded cx_loaded 250
           (ex_lc [ex_level 800 [''hi-a''] (Some (ex_details True 20))] (Some 0)) = Inr c'
        \<and> timer c' = Some 2250"
proof -
  let ?c = "ex_lc [ex_level 800 [''hi-a''] (Some (ex_details True 20))] (Some 0)"
  have h1: "lc_level ?c = Some (ll_level cx_loaded)"
    by (simp add: ex_lc_def cx_loaded_def)
  have h2: "lc_levels ?c = Some [ex_level 800 [''hi-a''] (Some (ex_details True 20))]"
    by (simp add: ex_lc_def)
  have h3: "nth_opt [ex_level 800 [''hi-a''] (Some (ex_details True 20))] (ll_level cx_loaded)
              = Some (ex_level 800 [''hi-a''] (Some (ex_details True 20)))"
    by (simp add: nth_opt_def cx_loaded_def)
  from live_reload_interval [OF h1 h2 h3, of 250]
  show ?thesis
    by (simp add: cx_loaded_def ex_level_def ex_details_def)
qed

text \<open>
  Claim C6 as stated fails on the code: see the concrete input below.
\<close>

theorem set_level_loading_counterexample:
  "map_option live (details (the (lc_levels cx_live_level) ! 0)) = Some True
   \<and> set_level 0 cx_live_level = Inr cx_live_level
   \<and> filter is_LEVEL_LOADING (new_events cx_live_level cx_live_level) = []"
  by (simp add: cx_live_level_def ex_lc_def ex_level_def ex_details_def set_level_def nth_opt_def
        new_events_def lc_init_def)

text \<open>
  Claim C6, as amended. Assigning an index within range to \<open>level\<close> always returns,
  and triggers LEVEL_LOADING, once and for the selected URL of the target level, exactly
  when the target's details are not cached, or the index differs from the current level
  and the cached details are live.
\<close>

theorem set_level_loading:
  assumes "lc_levels c = Some levels" and "0 \<le> newLevel" and "newLevel < int (length levels)"
  shows "\<exists>c'. set_level newLevel c = Inr c' \<and>
           filter is_LEVEL_LOADING (new_events c c') =
             (if (case details (levels ! nat newLevel) of
                    None \<Rightarrow> True
                  | Some d \<Rightarrow> lc_level c \<noteq> Some newLevel \<and> live d)
              then [LEVEL_LOADING (nth_opt (url (levels ! nat newLevel)) (urlId (levels ! nat newLevel)))
                      newLevel (urlId (levels ! nat newLevel))]
              else [])"
  using assms
  by (auto simp: set_level_def setLevelInternal_def Let_def trigger_def cleanTimer_def
        new_events_def nth_opt_def split: option.splits)

text \<open>The theorem of claim C6 at a concrete input.\<close>

theorem set_level_loading_witness:
  "\<exists>c'. set_level 0 (ex_lc [ex_level 800 [''hi-a''] (Some (ex_details True 20))] None) = Inr c' \<and>
      filter is_LEVEL_LOADING
        (new_events (ex_lc [ex_level 800 [''hi-a''] (Some (ex_details True 20))] None) c')
      = [LEVEL_LOADING (Some ''hi-a'') 0 0]"
  using set_level_loading [of "ex_lc [ex_level 800 [''hi-a''] (Some (ex_details True 20))] None"
           "[ex_level 800 [''hi-a''] (Some (ex_details True 20))]" 0]
  by (simp add: ex_lc_def ex_level_def ex_details_def lc_init_def nth_opt_def)

text \<open>
  Claim C8. In every reachable state with a non-empty level list, assigning a negative
  index to \<open>level\<close> triggers one ERROR event, not fatal, of type OTHER_ERROR with details
  LEVEL_SWITCH_ERROR and reason \<open>'invalid level idx'\<close>, and changes nothing else: the
  current level stays and no LEVEL_LOADING is issued. An index at or beyond the number
  of levels leaves the controller as it was.
\<close>

theorem set_level_invalid_index:
  assumes "reachable c" and "lc_levels c = Some levels" and "levels \<noteq> []"
  shows "(newLevel < 0 \<longrightarrow>
            set_level newLevel c =
              Inr (c\<lparr>triggered := triggered c @
                     [LC_ERROR \<lparr>err_type = OTHER_ERROR, err_details = LEVEL_SWITCH_ERROR,
                                fatal = False, err_frag = None, context_level = None,
                                err_level = Some newLevel, parent = None, levelRetry = False,
                                reason = ''invalid level idx''\<rparr>]\<rparr>))
       \<and> (int (length levels) \<le> newLevel \<longrightarrow> set_level newLevel c = Inr c)"
proof -
  have "lc_inv c" using assms(1) by (rule reachable_inv)
  then have "newLevel < 0 \<Longrightarrow> lc_level c \<noteq> Some newLevel"
    by (auto simp: lc_inv_def)
  then show ?thesis
    using assms(2)
    by (auto simp: set_level_def setLevelInternal_def trigger_def invalid_level_idx_def)
qed

text \<open>The theorem of claim C8 at a concrete input.\<close>

theorem set_level_invalid_index_witness:
  "lc_level (projr (set_level (-1) (onManifestLoaded (\<lambda>_ _. True) False ex_manifest (lc_init 1000 None))))
     = None
   \<and> set_level 2 (onManifestLoaded (\<lambda>_ _. True) False ex_manifest (lc_init 1000 None))
     = Inr (onManifestLoaded (\<lambda>_ _. True) False ex_manifest (lc_init 1000 None))"
  using set_level_invalid_index [OF ex_reachable ex_manifest_loaded, of "-1"]
        set_level_invalid_index [OF ex_reachable ex_manifest_loaded, of 2]
  by (simp add: onManifestLoaded_level lc_init_def)

text \<open>
  Claim C9. With a level list loaded, FRAG_LOADED returns and changes at most the level
  list, whose length stays. For a fragment that is absent or not of type \<open>'main'\<close> the
  list is unchanged. Otherwise the level the fragment belongs to gets \<open>loadError = 0\<close> and
  \<open>fragmentError = false\<close> and every other level is untouched; in all cases every level
  keeps all its fields other than those two.
\<close>

theorem onFragLoaded_frame:
  assumes lv: "lc_levels c = Some levels"
  shows "\<exists>levels'. onFragLoaded frag c = Inr (c\<lparr>lc_levels := Some levels'\<rparr>) \<and>
     length levels' = length levels \<and>
     ((case frag of None \<Rightarrow> True | Some f \<Rightarrow> frag_type f \<noteq> ''main'') \<longrightarrow> levels' = levels) \<and>
     (\<forall>j < length levels.
        levels' ! j = (levels ! j)\<lparr>loadError := loadError (levels' ! j),
                                  fragmentError := fragmentError (levels' ! j)\<rparr> \<and>
        (case frag of
           None \<Rightarrow> levels' ! j = levels ! j
         | Some f \<Rightarrow>
             if frag_type f = ''main'' \<and> frag_level f = int j
             then loadError (levels' ! j) = 0 \<and> fragmentError (levels' ! j) = False
             else levels' ! j = levels ! j))"
proof -
  have same: "c\<lparr>lc_levels := Some levels\<rparr> = c" using lv by simp
  show ?thesis
  proof (cases "\<exists>f. frag = Some f \<and> frag_type f = ''main'' \<and> nth_opt levels (frag_level f) \<noteq> None")
    case False
    then have "onFragLoaded frag c = Inr (c\<lparr>lc_levels := Some levels\<rparr>)"
      using lv same by (auto simp: onFragLoaded_def split: option.splits)
    moreover have "\<forall>j < length levels. (case frag of
           None \<Rightarrow> levels ! j = levels ! j
         | Some f \<Rightarrow>
             if frag_type f = ''main'' \<and> frag_level f = int j
             then loadError (levels ! j) = 0 \<and> fragmentError (levels ! j) = False
             else levels ! j = levels ! j)"
      using False by (auto simp: nth_opt_nat split: option.splits)
    ultimately show ?thesis by (intro exI [of _ levels]) simp
  next
    case True
    then obtain f lv0 where h: "frag = Some f" "frag_type f = ''main''"
       "nth_opt levels (frag_level f) = Some lv0"
      by auto
    have i: "0 \<le> frag_level f" "nat (frag_level f) < length levels" "levels ! nat (frag_level f) = lv0"
      using nth_opt_Some [OF h(3)] by simp_all
    let ?levels' = "levels[nat (frag_level f) := lv0\<lparr>fragmentError := False, loadError := 0\<rparr>]"
    have "onFragLoaded frag c = Inr (c\<lparr>lc_levels := Some ?levels'\<rparr>)"
      using lv h by (simp add: onFragLoaded_def)
    moreover have "\<forall>j < length levels.
        ?levels' ! j = (levels ! j)\<lparr>loadError := loadError (?levels' ! j),
                                  fragmentError := fragmentError (?levels' ! j)\<rparr> \<and>
        (if frag_type f = ''main'' \<and> frag_level f = int j
             then loadError (?levels' ! j) = 0 \<and> fragmentError (?levels' ! j) = False
             else ?levels' ! j = levels ! j)"
      using i h(2) by (auto simp: nth_list_update)
    ultimately show ?thesis using h(1,2) by (intro exI [of _ ?levels']) simp
  qed
qed

text \<open>The theorem of claim C9 at a concrete input.\<close>

theorem onFragLoaded_frame_witness:
  "\<exists>levels'. onFragLoaded (err_frag (ex_frag_error 1))
        (ex_lc [ex_level 300 [''lo-a''] None,
                (ex_level 800 [''a'', ''b''] None)\<lparr>loadError := 2, fragmentError := True\<rparr>] (Some 1))
      = Inr (ex_lc [ex_level 300 [''lo-a''] None,
                (ex_level 800 [''a'', ''b''] None)\<lparr>loadError := 2, fragmentError := True\<rparr>] (Some 1)
               \<lparr>lc_levels := Some levels'\<rparr>)
     \<and> levels' ! 0 = ex_level 300 [''lo-a''] None \<and> levels' ! 1 = ex_level 800 [''a'', ''b''] None"
proof -
  let ?ls = "[ex_level 300 [''lo-a''] None,
                (ex_level 800 [''a'', ''b''] None)\<lparr>loadError := 2, fragmentError := True\<rparr>]"
  have h: "lc_levels (ex_lc ?ls (Some 1)) = Some ?ls" by (simp add: ex_lc_def)
  from onFragLoaded_frame [OF h, of "err_frag (ex_frag_error 1)"]
  obtain levels' where l: "onFragLoaded (err_frag (ex_frag_error 1)) (ex_lc ?ls (Some 1))
        = Inr (ex_lc ?ls (Some 1)\<lparr>lc_levels := Some levels'\<rparr>)"
     "\<forall>j < length ?ls.
        levels' ! j = (?ls ! j)\<lparr>loadError := loadError (levels' ! j),
                                  fragmentError := fragmentError (levels' ! j)\<rparr> \<and>
        (case err_frag (ex_frag_error 1) of
           None \<Rightarrow> levels' ! j = ?ls ! j
         | Some f \<Rightarrow>
             if frag_type f = ''main'' \<and> frag_level f = int j
             then loadError (levels' ! j) = 0 \<and> fragmentError (levels' ! j) = False
             else levels' ! j = ?ls ! j)"
    by blast
  have j: "(0::nat) < length ?ls" "(1::nat) < length ?ls" by simp_all
  from l(2) [rule_format, OF j(1)] have "levels' ! 0 = ex_level 300 [''lo-a''] None"
    by (simp add: ex_frag_error_def)
  moreover have "levels' ! 1 = ex_level 800 [''a'', ''b''] None"
  proof -
    note raw = l(2) [rule_format, OF j(2)]
    have z: "loadError (levels' ! 1) = 0" "fragmentError (levels' ! 1) = False"
      using raw by (simp_all add: ex_frag_error_def)
    have "levels' ! 1 = (?ls ! 1)\<lparr>loadError := loadError (levels' ! 1),
                                  fragmentError := fragmentError (levels' ! 1)\<rparr>"
      using raw by (rule conjunct1)
    then have "levels' ! 1 = (?ls ! 1)\<lparr>loadError := 0, fragmentError := False\<rparr>"
      unfolding z .
    then show ?thesis by (simp add: ex_level_def)
  qed
  ultimately show ?thesis using l(1) by blast
qed

text \<open>
  Claim C10 as stated fails on the code: \<open>urlId\<close> also moves on an error that is not a load
  error. On the controller loaded with the example manifest, a non-fatal REMUX_ALLOC_ERROR
  about level 1 moves the \<open>urlId\<close> of that level from 0 to 1.
\<close>

theorem urlId_in_range_counterexample:
  "reachable ex_loaded
   \<and> urls_of ex_loaded = Some [([''lo-a''], 0), ([''hi-a'', ''hi-b''], 0)]
   \<and> map_sum id (urls_of \<circ> fst) (onError (ex_remux_error 1) ex_loaded)
        = Inr (Some [([''lo-a''], 0), ([''hi-a'', ''hi-b''], 1)])
   \<and> err_details (ex_remux_error 1) = REMUX_ALLOC_ERROR
   \<and> load_error_on (ex_remux_error 1) 1 = False"
  by (simp add: urls_of_def level_urls_def ex_loaded_levels ex_loaded_reachable onError_def
        error_levelIndex_def ex_remux_error_def load_error_on_def nth_opt_def ex_level_def Let_def smod_int_alt_def)

text \<open>
  Claim C10, as amended. In every reachable state of the Level Controller every level has
  \<open>0 \<le> urlId < url.length\<close>. A manifest load either leaves the level list alone (no
  compatible level) or installs levels whose \<open>urlId\<close> is 0. \<open>onError\<close> with a non-fatal
  fragment, key or level load error or REMUX_ALLOC_ERROR about a level whose error count,
  this error included, is below the number of its URLs moves the \<open>urlId\<close> of that level to
  \<open>(urlId + 1) mod url.length\<close> and leaves the URL lists and the \<open>urlId\<close> of every other
  level as they were; an \<open>onError\<close> that changes any URL list or \<open>urlId\<close> is such a rotation,
  of a level with more than one URL. \<open>onLevelRemoved\<close> takes the level at the given index out
  of the list and keeps the others. Every other operation keeps the URL list and the
  \<open>urlId\<close> of every level.
\<close>

theorem urlId_in_range:
  assumes "reachable c"
  shows "(\<forall>levels. lc_levels c = Some levels \<longrightarrow>
            (\<forall>lv \<in> set levels. 0 \<le> urlId lv \<and> urlId lv < int (length (url lv))))
       \<and> (\<forall>supported cf data.
            lc_levels (onManifestLoaded supported cf data c) = lc_levels c
            \<or> (\<exists>levels'. lc_levels (onManifestLoaded supported cf data c) = Some levels'
                  \<and> (\<forall>lv \<in> set levels'. urlId lv = 0)))
       \<and> (\<forall>data i levels lv.
            rotating_error data i \<and> lc_levels c = Some levels \<and> nth_opt levels i = Some lv
              \<and> loadError lv + 1 < length (url lv) \<longrightarrow>
            (\<exists>c' data'. onError data c = Inr (c', data') \<and>
               urls_of c' = Some ((level_urls levels)[nat i :=
                                    (url lv, (urlId lv + 1) mod int (length (url lv)))])))
       \<and> (\<forall>data c' data'.
            onError data c = Inr (c', data') \<and> urls_of c' \<noteq> urls_of c \<longrightarrow>
            (\<exists>i levels lv. rotating_error data i \<and> lc_levels c = Some levels
               \<and> nth_opt levels i = Some lv \<and> 1 < length (url lv)
               \<and> loadError lv + 1 < length (url lv)))
       \<and> (\<forall>i c'. onLevelRemoved i c = Inr c' \<longrightarrow>
            urls_of c' = map_option (\<lambda>us. if 0 \<le> i then remove_index (nat i) us else us)
                           (urls_of c))
       \<and> (\<forall>op c'. lc_step op c = Inr c' \<and> \<not> is_ManifestLoaded op \<and> \<not> is_Error op
              \<and> \<not> is_LevelRemoved op \<longrightarrow> urls_of c' = urls_of c)"
proof -
  have inv: "lc_inv c" using assms by (rule reachable_inv)
  have a: "\<forall>levels. lc_levels c = Some levels \<longrightarrow>
            (\<forall>lv \<in> set levels. 0 \<le> urlId lv \<and> urlId lv < int (length (url lv)))"
    using inv by (simp add: lc_inv_def urlId_ok_def)
  have b: "\<forall>supported cf data.
            lc_levels (onManifestLoaded supported cf data c) = lc_levels c
            \<or> (\<exists>levels'. lc_levels (onManifestLoaded supported cf data c) = Some levels'
                  \<and> (\<forall>lv \<in> set levels'. urlId lv = 0))"
    using onManifestLoaded_levels [of _ _ _ c] by blast
  have c: "\<forall>data i levels lv.
            rotating_error data i \<and> lc_levels c = Some levels \<and> nth_opt levels i = Some lv
              \<and> loadError lv + 1 < length (url lv) \<longrightarrow>
            (\<exists>c' data'. onError data c = Inr (c', data') \<and>
               urls_of c' = Some ((level_urls levels)[nat i :=
                                    (url lv, (urlId lv + 1) mod int (length (url lv)))]))"
  proof (intro allI impI, elim conjE)
    fix data i levels lv
    assume h: "rotating_error data i" "lc_levels c = Some levels" "nth_opt levels i = Some lv"
      "loadError lv + 1 < length (url lv)"
    have "lv \<in> set levels" using nth_opt_Some [OF h(3)] by (metis nth_mem)
    then have "urlId_ok lv" using inv h(2) by (simp add: lc_inv_def)
    with h show "\<exists>c' data'. onError data c = Inr (c', data') \<and>
               urls_of c' = Some ((level_urls levels)[nat i :=
                                    (url lv, (urlId lv + 1) mod int (length (url lv)))])"
      by (intro onError_rotation)
  qed
  have d: "\<forall>data c' data'.
            onError data c = Inr (c', data') \<and> urls_of c' \<noteq> urls_of c \<longrightarrow>
            (\<exists>i levels lv. rotating_error data i \<and> lc_levels c = Some levels
               \<and> nth_opt levels i = Some lv \<and> 1 < length (url lv)
               \<and> loadError lv + 1 < length (url lv))"
    using onError_change by blast
  have e: "\<forall>i c'. onLevelRemoved i c = Inr c' \<longrightarrow>
            urls_of c' = map_option (\<lambda>us. if 0 \<le> i then remove_index (nat i) us else us)
                           (urls_of c)"
    using urls_onLevelRemoved by blast
  have f: "\<forall>op c'. lc_step op c = Inr c' \<and> \<not> is_ManifestLoaded op \<and> \<not> is_Error op
              \<and> \<not> is_LevelRemoved op \<longrightarrow> urls_of c' = urls_of c"
    using urls_step by blast
  from a b c d e f show ?thesis by blast
qed

text \<open>
  The theorem of claim C10 at a concrete input: a reachable controller whose second level
  is on its second URL, where a fragment load error wraps the \<open>urlId\<close> round to 0.
\<close>

theorem urlId_in_range_witness:
  "reachable ex_rotated
   \<and> urls_of ex_rotated = Some [([''lo-a''], 0), ([''hi-a'', ''hi-b''], 1)]
   \<and> (\<exists>c' data'. onError (ex_frag_error 1) ex_rotated = Inr (c', data')
         \<and> urls_of c' = Some [([''lo-a''], 0), ([''hi-a'', ''hi-b''], 0)])"
proof -
  let ?lo = "ex_level 300 [''lo-a''] None"
  let ?hi = "(ex_level 800 [''hi-a'', ''hi-b''] None)\<lparr>urlId := 1\<rparr>"
  have l: "lc_levels ex_rotated = Some [?lo, ?hi]" by (simp add: ex_rotated_def)
  have u: "urls_of ex_rotated = Some [([''lo-a''], 0), ([''hi-a'', ''hi-b''], 1)]"
    by (simp add: urls_of_def level_urls_def l ex_level_def)
  have h: "rotating_error (ex_frag_error 1) 1 \<and> lc_levels ex_rotated = Some [?lo, ?hi]
      \<and> nth_opt [?lo, ?hi] 1 = Some ?hi \<and> loadError ?hi + 1 < length (url ?hi)"
    by (simp add: rotating_error_def ex_frag_error_load l nth_opt_def ex_level_def)
  from urlId_in_range [OF ex_rotated_reachable]
  have "\<forall>data i levels lv.
            rotating_error data i \<and> lc_levels ex_rotated = Some levels \<and> nth_opt levels i = Some lv
              \<and> loadError lv + 1 < length (url lv) \<longrightarrow>
            (\<exists>c' data'. onError data ex_rotated = Inr (c', data') \<and>
               urls_of c' = Some ((level_urls levels)[nat i :=
                                    (url lv, (urlId lv + 1) mod int (length (url lv)))]))"
    by blast
  with h have "\<exists>c' data'. onError (ex_frag_error 1) ex_rotated = Inr (c', data') \<and>
      urls_of c' = Some ((level_urls [?lo, ?hi])[nat 1 :=
                           (url ?hi, (urlId ?hi + 1) mod int (length (url ?hi)))])"
    by blast
  then have "\<exists>c' data'. onError (ex_frag_error 1) ex_rotated = Inr (c', data')
         \<and> urls_of c' = Some [([''lo-a''], 0), ([''hi-a'', ''hi-b''], 0)]"
    by (simp add: level_urls_def ex_level_def)
  with ex_rotated_reachable u show ?thesis by blast
qed

section \<open>Properties of the Audio Stream Controller\<close>

subsection \<open>Auxiliary facts\<close>

lemma asc_onError_retry:
  assumes "frag_load_error data"
    and "int (fragLoadError s + 1) \<le> fragLoadingMaxRetry (config s)"
  shows "asc_onError now data s =
     Inr (s\<lparr>fragLoadError := fragLoadError s + 1,
            retryDate := now + min (2 ^ fragLoadError s * fragLoadingRetryDelay (config s))
                                   (fragLoadingMaxRetryTimeout (config s)),
            state := FRAG_LOADING_WAITING_RETRY\<rparr>, data)"
proof -
  have f: "\<not> (case err_frag data of Some f \<Rightarrow> frag_type f \<noteq> ''audio'' | None \<Rightarrow> False)"
    using assms(1) by (auto simp: frag_load_error_def split: option.splits)
  have d: "err_details data \<in> {FRAG_LOAD_ERROR, FRAG_LOAD_TIMEOUT}" "\<not> fatal data"
    using assms(1) by (simp_all add: frag_load_error_def)
  show ?thesis
  proof (cases "fragLoadError s = 0")
    case True
    with f d assms(2) show ?thesis
      unfolding asc_onError_def by (simp add: Let_def)
  next
    case False
    with f d assms(2) show ?thesis
      unfolding asc_onError_def by (simp add: Let_def)
  qed
qed

lemma asc_onError_escalate:
  assumes "frag_load_error data"
    and "fragLoadingMaxRetry (config s) < int (fragLoadError s + 1)"
  shows "asc_onError now data s = Inr (s\<lparr>state := ERROR\<rparr>, data\<lparr>fatal := True\<rparr>)"
proof -
  have f: "\<not> (case err_frag data of Some f \<Rightarrow> frag_type f \<noteq> ''audio'' | None \<Rightarrow> False)"
    using assms(1) by (auto simp: frag_load_error_def split: option.splits)
  have d: "err_details data \<in> {FRAG_LOAD_ERROR, FRAG_LOAD_TIMEOUT}" "\<not> fatal data"
    using assms(1) by (simp_all add: frag_load_error_def)
  show ?thesis
  proof (cases "fragLoadError s = 0")
    case True
    with f d assms(2) show ?thesis
      unfolding asc_onError_def by (simp add: Let_def)
  next
    case False
    with f d assms(2) show ?thesis
      unfolding asc_onError_def by (simp add: Let_def)
  qed
qed

lemma asc_onError_run_retries:
  assumes e: "frag_load_error data" and z: "fragLoadError s = 0"
  shows "k \<le> nat (fragLoadingMaxRetry (config s)) \<Longrightarrow>
     \<exists>s'. asc_onError_run t k data s = Inr (s', data) \<and> fragLoadError s' = k \<and>
          config s' = config s \<and>
          (1 \<le> k \<longrightarrow> state s' = FRAG_LOADING_WAITING_RETRY \<and>
             retryDate s' = t k + min (fragLoadingRetryDelay (config s) * 2 ^ (k - 1))
                                      (fragLoadingMaxRetryTimeout (config s)))"
proof (induction k)
  case 0
  show ?case using z by simp
next
  case (Suc k)
  then obtain s1 where h: "asc_onError_run t k data s = Inr (s1, data)" "fragLoadError s1 = k"
     "config s1 = config s"
    by auto
  have "int (fragLoadError s1 + 1) \<le> fragLoadingMaxRetry (config s1)"
  proof -
    have "int (Suc k) \<le> fragLoadingMaxRetry (config s)" using Suc.prems by linarith
    then show ?thesis using h(2,3) by simp
  qed
  from asc_onError_retry [OF e this, of "t (Suc k)"] h
  show ?case by (simp add: mult.commute)
qed

lemma backoff_mono:
  fixes d M :: real
  assumes "0 \<le> d"
  shows "min (d * 2 ^ (k - 1)) M \<le> min (d * 2 ^ k) M"
proof -
  have "(2::real) ^ (k - 1) \<le> 2 ^ k" by (rule power_increasing) simp_all
  then have "d * 2 ^ (k - 1) \<le> d * 2 ^ k" using assms by (rule mult_left_mono)
  then show ?thesis by (simp add: min_le_iff_disj)
qed

lemma seek_media_keeps:
  "seek_media t s = Inr s1 \<Longrightarrow>
     state s1 = state s \<and> initPTS s1 = initPTS s \<and> audioSwitch s1 = audioSwitch s"
  by (auto simp: seek_media_def split: option.splits)

lemma idle_audioSwitch_keeps:
  assumes "idle_audioSwitch pos bi td start0 s = Inr (Some (s1, bufferEnd))"
  shows "state s1 = state s \<and> initPTS s1 = initPTS s"
proof (cases "audioSwitch s \<and> \<not> (live td \<and> \<not> PTSKnown td) \<and> PTSKnown td \<and> pos < start0
              \<and> (buf_end bi > start0 \<or> truthy_num (nextStart bi))")
  case True
  with assms obtain s2 where "seek_media (start0 + 0.05) s = Inr s2" "s1 = s2"
    by (auto simp: idle_audioSwitch_def split: sum.splits)
  then show ?thesis using seek_media_keeps by blast
next
  case False
  with assms have "s1 = s"
    by (auto simp: idle_audioSwitch_def split: if_splits)
  then show ?thesis by simp
qed

lemma idle_findFrag_keeps:
  assumes "idle_findFrag env pos bi td s = Inr (s1, r)"
  shows "state s1 = state s \<and> initPTS s1 = initPTS s"
proof (cases "fragments td")
  case Nil
  with assms show ?thesis by (simp add: idle_findFrag_def)
next
  case (Cons f0 fs)
  show ?thesis
  proof (cases "idle_audioSwitch pos bi td (start f0) s")
    case (Inl e)
    with assms Cons show ?thesis by (simp add: idle_findFrag_def Let_def)
  next
    case (Inr ob)
    show ?thesis
    proof (cases ob)
      case None
      with assms Cons Inr show ?thesis by (simp add: idle_findFrag_def Let_def)
    next
      case (Some p)
      obtain s2 bufferEnd where p: "p = (s2, bufferEnd)" by (cases p)
      have k: "state s2 = state s \<and> initPTS s2 = initPTS s"
        using idle_audioSwitch_keeps Inr Some p by blast
      have "s1 = s2 \<or> (\<exists>t. seek_media t s2 = Inr s1)"
        using assms Cons Inr Some p
        unfolding idle_findFrag_def Let_def
        by (auto split: if_splits sum.splits option.splits seqnum.splits)
      then show ?thesis using k seek_media_keeps by metis
    qed
  qed
qed

lemma idle_choose_Chosen:
  assumes "idle_choose env s = Inr (Chosen s1 td frag)"
  shows "state s1 = state s \<and> initPTS s1 = initPTS s"
proof -
  from assms obtain pos bi where "idle_findFrag env pos bi td s = Inr (s1, Some frag)"
    unfolding idle_choose_def Let_def
    by (auto split: option.splits if_splits sum.splits prod.splits)
  then show ?thesis by (rule idle_findFrag_keeps)
qed

lemma idle_choose_Tick_done:
  assumes "idle_choose env s = Inr (Tick_done s1)" and "state s = IDLE"
  shows "state s1 \<noteq> WAITING_INIT_PTS"
proof -
  from assms(1)
  have "s1 = s \<or> s1 = s\<lparr>state := WAITING_TRACK\<rparr>
        \<or> s1 = (asc_trigger (Ev_BUFFER_EOS ''audio'') s)\<lparr>state := ENDED\<rparr>
        \<or> (\<exists>pos bi td. idle_findFrag env pos bi td s = Inr (s1, None))"
    unfolding idle_choose_def Let_def
    by (auto split: option.splits if_splits sum.splits prod.splits)
  then show ?thesis
    using assms(2) idle_findFrag_keeps by (auto simp: asc_trigger_def)
qed

lemma idle_loadFrag_waits:
  assumes "state s1 = IDLE"
  shows "state (idle_loadFrag env sw td frag s1) = WAITING_INIT_PTS \<longleftrightarrow>
     (\<not> encrypted frag \<and> (sw \<or> getState env frag = NOT_LOADED) \<and> sn frag \<noteq> InitSegmentSN
      \<and> initSegment td = None \<and> \<not> isFinite (initPTS s1 (cc frag)))"
  using assms
  by (auto simp: idle_loadFrag_def Let_def asc_trigger_def loadInitSegment_def
        loadFragForPlayback_def split: seqnum.splits)

subsection \<open>Claims\<close>

text \<open>
  Claim C2. Take a run of successive recoverable fragment-load errors handled by the
  audio stream controller, starting with no load error recorded. Every \<open>k\<close>-th error
  with \<open>1 \<le> k \<le> fragLoadingMaxRetry\<close> leaves the payload not fatal, records \<open>k\<close>
  failures, enters FRAG_LOADING_WAITING_RETRY and schedules the retry at the time of the
  error plus \<open>min(fragLoadingRetryDelay * 2^(k-1), fragLoadingMaxRetryTimeout)\<close>. The
  first error beyond the ceiling is marked fatal and the controller enters ERROR. The
  delay never exceeds the configured maximum and, for a base delay that is not negative,
  it does not decrease with \<open>k\<close>.
\<close>

theorem frag_retry_backoff:
  assumes e: "frag_load_error data" and z: "fragLoadError s = 0"
  shows "(\<forall>k. 1 \<le> k \<and> int k \<le> fragLoadingMaxRetry (config s) \<longrightarrow>
            (\<exists>s'. asc_onError_run t k data s = Inr (s', data) \<and>
                  state s' = FRAG_LOADING_WAITING_RETRY \<and> fragLoadError s' = k \<and>
                  retryDate s' = t k + min (fragLoadingRetryDelay (config s) * 2 ^ (k - 1))
                                           (fragLoadingMaxRetryTimeout (config s))))
       \<and> (\<exists>s'. asc_onError_run t (nat (fragLoadingMaxRetry (config s)) + 1) data s
                  = Inr (s', data\<lparr>fatal := True\<rparr>) \<and> state s' = ERROR)
       \<and> (\<forall>k. min (fragLoadingRetryDelay (config s) * 2 ^ (k - 1))
                   (fragLoadingMaxRetryTimeout (config s))
                \<le> fragLoadingMaxRetryTimeout (config s))
       \<and> (0 \<le> fragLoadingRetryDelay (config s) \<longrightarrow>
            (\<forall>k. min (fragLoadingRetryDelay (config s) * 2 ^ (k - 1))
                      (fragLoadingMaxRetryTimeout (config s))
                  \<le> min (fragLoadingRetryDelay (config s) * 2 ^ k)
                      (fragLoadingMaxRetryTimeout (config s))))"
proof -
  have a: "\<forall>k. 1 \<le> k \<and> int k \<le> fragLoadingMaxRetry (config s) \<longrightarrow>
            (\<exists>s'. asc_onError_run t k data s = Inr (s', data) \<and>
                  state s' = FRAG_LOADING_WAITING_RETRY \<and> fragLoadError s' = k \<and>
                  retryDate s' = t k + min (fragLoadingRetryDelay (config s) * 2 ^ (k - 1))
                                           (fragLoadingMaxRetryTimeout (config s)))"
  proof (intro allI impI)
    fix k assume k: "1 \<le> k \<and> int k \<le> fragLoadingMaxRetry (config s)"
    then have "k \<le> nat (fragLoadingMaxRetry (config s))" by linarith
    from asc_onError_run_retries [OF e z this, of t] k
    show "\<exists>s'. asc_onError_run t k data s = Inr (s', data) \<and>
                  state s' = FRAG_LOADING_WAITING_RETRY \<and> fragLoadError s' = k \<and>
                  retryDate s' = t k + min (fragLoadingRetryDelay (config s) * 2 ^ (k - 1))
                                           (fragLoadingMaxRetryTimeout (config s))"
      by auto
  qed
  have b: "\<exists>s'. asc_onError_run t (nat (fragLoadingMaxRetry (config s)) + 1) data s
                  = Inr (s', data\<lparr>fatal := True\<rparr>) \<and> state s' = ERROR"
  proof -
    let ?n = "nat (fragLoadingMaxRetry (config s))"
    from asc_onError_run_retries [OF e z, of ?n t]
    obtain s1 where h: "asc_onError_run t ?n data s = Inr (s1, data)" "fragLoadError s1 = ?n"
      "config s1 = config s"
      by auto
    have "fragLoadingMaxRetry (config s1) < int (fragLoadError s1 + 1)"
      unfolding h(2,3) by simp
    from asc_onError_escalate [OF e this, of "t (Suc ?n)"] h(1)
    show ?thesis by simp
  qed
  have c: "\<forall>k. min (fragLoadingRetryDelay (config s) * 2 ^ (k - 1))
                   (fragLoadingMaxRetryTimeout (config s))
                \<le> fragLoadingMaxRetryTimeout (config s)"
    by simp
  have d: "0 \<le> fragLoadingRetryDelay (config s) \<longrightarrow>
            (\<forall>k. min (fragLoadingRetryDelay (config s) * 2 ^ (k - 1))
                      (fragLoadingMaxRetryTimeout (config s))
                  \<le> min (fragLoadingRetryDelay (config s) * 2 ^ k)
                      (fragLoadingMaxRetryTimeout (config s)))"
    using backoff_mono by blast
  from a b c d show ?thesis by blast
qed

text \<open>The theorem of claim C2 at a concrete input.\<close>

theorem frag_retry_backoff_witness:
  "(\<exists>s'. asc_onError_run (\<lambda>k. 100 * real k) 3 (ex_asc_error FRAG_LOAD_ERROR) (ex_asc FRAG_LOADING)
            = Inr (s', ex_asc_error FRAG_LOAD_ERROR)
          \<and> state s' = FRAG_LOADING_WAITING_RETRY \<and> fragLoadError s' = 3
          \<and> retryDate s' = 3300)
   \<and> (\<exists>s'. asc_onError_run (\<lambda>k. 100 * real k) 4 (ex_asc_error FRAG_LOAD_ERROR) (ex_asc FRAG_LOADING)
            = Inr (s', (ex_asc_error FRAG_LOAD_ERROR)\<lparr>fatal := True\<rparr>)
          \<and> state s' = ERROR)"
proof -
  have e: "frag_load_error (ex_asc_error FRAG_LOAD_ERROR)"
    by (simp add: frag_load_error_def ex_asc_error_def ex_audio_frag_def)
  have z: "fragLoadError (ex_asc FRAG_LOADING) = 0" by (simp add: ex_asc_def)
  have c: "config (ex_asc FRAG_LOADING) = ex_cfg" by (simp add: ex_asc_def)
  note th = frag_retry_backoff [OF e z, of "\<lambda>k. 100 * real k"]
  from th have "1 \<le> (3::nat) \<and> int 3 \<le> fragLoadingMaxRetry (config (ex_asc FRAG_LOADING)) \<longrightarrow>
            (\<exists>s'. asc_onError_run (\<lambda>k. 100 * real k) 3 (ex_asc_error FRAG_LOAD_ERROR) (ex_asc FRAG_LOADING)
                     = Inr (s', ex_asc_error FRAG_LOAD_ERROR) \<and>
                  state s' = FRAG_LOADING_WAITING_RETRY \<and> fragLoadError s' = 3 \<and>
                  retryDate s' = 100 * real (3::nat)
                      + min (fragLoadingRetryDelay (config (ex_asc FRAG_LOADING)) * 2 ^ (3 - 1))
                            (fragLoadingMaxRetryTimeout (config (ex_asc FRAG_LOADING))))"
    by blast
  then have first: "\<exists>s'. asc_onError_run (\<lambda>k. 100 * real k) 3 (ex_asc_error FRAG_LOAD_ERROR) (ex_asc FRAG_LOADING)
            = Inr (s', ex_asc_error FRAG_LOAD_ERROR)
          \<and> state s' = FRAG_LOADING_WAITING_RETRY \<and> fragLoadError s' = 3
          \<and> retryDate s' = 3300"
    by (simp add: c ex_cfg_def)
  have n4: "nat (fragLoadingMaxRetry (config (ex_asc FRAG_LOADING))) + 1 = 4"
    by (simp add: c ex_cfg_def)
  from th have "\<exists>s'. asc_onError_run (\<lambda>k. 100 * real k)
                    (nat (fragLoadingMaxRetry (config (ex_asc FRAG_LOADING))) + 1)
                    (ex_asc_error FRAG_LOAD_ERROR) (ex_asc FRAG_LOADING)
                  = Inr (s', (ex_asc_error FRAG_LOAD_ERROR)\<lparr>fatal := True\<rparr>) \<and> state s' = ERROR"
    by blast
  then have second: "\<exists>s'. asc_onError_run (\<lambda>k. 100 * real k) 4 (ex_asc_error FRAG_LOAD_ERROR) (ex_asc FRAG_LOADING)
            = Inr (s', (ex_asc_error FRAG_LOAD_ERROR)\<lparr>fatal := True\<rparr>)
          \<and> state s' = ERROR"
    unfolding n4 .
  from first second show ?thesis by blast
qed

text \<open>
  Claim C5 as stated fails on the code: see the concrete input below.
\<close>

theorem buffer_full_recovery_counterexample:
  "position_buffered cx_small_ceiling ex_media
   \<and> asc_onError 0 (ex_asc_error BUFFER_FULL_ERROR) cx_small_ceiling
        = Inr (cx_small_ceiling\<lparr>state := IDLE\<rparr>, ex_asc_error BUFFER_FULL_ERROR)
   \<and> maxMaxBufferLength (config (cx_small_ceiling\<lparr>state := IDLE\<rparr>)) = 10
   \<and> maxBufferLength (config cx_small_ceiling) = 30"
  by (simp add: cx_small_ceiling_def ex_asc_def ex_cfg_def ex_media_def ex_asc_error_def
        ex_audio_frag_def asc_onError_def asc_mediaBuffered_def position_buffered_def
        isBuffered_def Let_def)

text \<open>
  Claim C5, as amended. Take a BUFFER_FULL_ERROR whose parent is \<open>'audio'\<close> (and whose
  fragment, if any, is an audio fragment), received in PARSING or PARSED with a media
  element attached. When the playback position is buffered the controller returns to
  IDLE and halves \<open>maxMaxBufferLength\<close> if it is at least \<open>maxBufferLength\<close>, leaving
  it as it is otherwise. When the position is not buffered the controller drops the
  current fragment, enters BUFFER_FLUSHING and requests a flush of the audio buffer from
  0 to positive infinity.
\<close>

theorem buffer_full_recovery:
  assumes d: "err_details data = BUFFER_FULL_ERROR" and p: "parent data = Some ''audio''"
    and f: "case err_frag data of Some f \<Rightarrow> frag_type f = ''audio'' | None \<Rightarrow> True"
    and st: "state s = PARSING \<or> state s = PARSED"
    and m: "asc_media s = Some m"
  shows "asc_onError now data s =
     (if position_buffered s m then
        Inr (s\<lparr>config := (if maxBufferLength (config s) \<le> maxMaxBufferLength (config s)
                           then (config s)\<lparr>maxMaxBufferLength := maxMaxBufferLength (config s) / 2\<rparr>
                           else config s),
               state := IDLE\<rparr>, data)
      else
        Inr (s\<lparr>fragCurrent := None, state := BUFFER_FLUSHING,
               asc_triggered := asc_triggered s @ [Ev_BUFFER_FLUSHING (Num 0) PosInfinity ''audio'']\<rparr>,
             data))"
proof -
  have f': "\<not> (case err_frag data of Some f \<Rightarrow> frag_type f \<noteq> ''audio'' | None \<Rightarrow> False)"
    using f by (auto split: option.splits)
  have mb: "asc_mediaBuffered s = Inr (position_buffered s m)"
    using m by (simp add: asc_mediaBuffered_def position_buffered_def)
  show ?thesis
    unfolding asc_onError_def
    using d p f' st mb by (auto simp: Let_def asc_trigger_def)
qed

text \<open>The theorem of claim C5 at a concrete input.\<close>

theorem buffer_full_recovery_witness:
  "asc_onError 0 (ex_asc_error BUFFER_FULL_ERROR) (ex_asc PARSED)
     = Inr ((ex_asc PARSED)\<lparr>config := ex_cfg\<lparr>maxMaxBufferLength := 300\<rparr>, state := IDLE\<rparr>,
            ex_asc_error BUFFER_FULL_ERROR)"
proof -
  have d: "err_details (ex_asc_error BUFFER_FULL_ERROR) = BUFFER_FULL_ERROR"
    and p: "parent (ex_asc_error BUFFER_FULL_ERROR) = Some ''audio''"
    and f: "case err_frag (ex_asc_error BUFFER_FULL_ERROR) of
              Some f \<Rightarrow> frag_type f = ''audio'' | None \<Rightarrow> True"
    by (simp_all add: ex_asc_error_def ex_audio_frag_def)
  have st: "state (ex_asc PARSED) = PARSING \<or> state (ex_asc PARSED) = PARSED"
    and m: "asc_media (ex_asc PARSED) = Some ex_media"
    by (simp_all add: ex_asc_def)
  have b: "position_buffered (ex_asc PARSED) ex_media"
    by (simp add: position_buffered_def ex_asc_def ex_media_def isBuffered_def)
  from buffer_full_recovery [OF d p f st m, of 0] b
  show ?thesis by (simp add: ex_asc_def ex_cfg_def)
qed

text \<open>
  Claim C7 as stated fails on the code: see the concrete input below.
\<close>

theorem waiting_init_pts_counterexample:
  "isFinite (initPTS cx_track_wait (cc (ex_audio_frag 1)))
   \<and> doTick ex_env cx_track_wait = Inr (cx_track_wait\<lparr>state := WAITING_INIT_PTS\<rparr>)
   \<and> doTick ex_env cx_other_cc
        = Inr (cx_other_cc\<lparr>fragCurrent := Some (ex_audio_frag 1), startFragRequested := True,
                           state := WAITING_INIT_PTS\<rparr>)
   \<and> doTick ex_env (cx_other_cc\<lparr>fragCurrent := Some (ex_audio_frag 1),
                                  startFragRequested := True, state := WAITING_INIT_PTS\<rparr>)
        = Inr (cx_other_cc\<lparr>fragCurrent := Some (ex_audio_frag 1), startFragRequested := True,
                           state := IDLE\<rparr>)
   \<and> initPTS cx_other_cc (cc (ex_audio_frag 1)) = None"
  by (simp add: cx_track_wait_def cx_other_cc_def ex_asc_def ex_env_def ex_cfg_def ex_media_def
        ex_track_details_def ex_audio_frag_def doTick_def idle_choose_def idle_findFrag_def
        idle_audioSwitch_def idle_loadFrag_def nth_opt_def Let_def)

text \<open>
  Claim C7, as amended. A tick in IDLE enters WAITING_INIT_PTS exactly when its fragment
  selection chooses a fragment that is not encrypted, is to be loaded (a track switch is
  pending or the fragment tracker reports the fragment as not loaded), is not the init
  segment, belongs to a playlist without init segment, and has no finite \<open>initPTS\<close> for its
  continuity counter. A tick in WAITING_TRACK enters WAITING_INIT_PTS exactly when the
  selected track has its playlist details at that tick, whatever \<open>initPTS\<close> holds. A tick
  in any other state does not enter WAITING_INIT_PTS. In WAITING_INIT_PTS a tick goes back
  to IDLE exactly when \<open>initPTS[videoTrackCC]\<close> is finite, \<open>videoTrackCC\<close> being the
  continuity counter of the latest INIT_PTS_FOUND; \<open>onInitPtsFound\<close>, called in
  WAITING_INIT_PTS, records the value for the continuity counter of the video fragment and
  leads to IDLE within the same call exactly when the value is finite.
\<close>

theorem waiting_init_pts_transitions:
  "(state s = IDLE \<and> doTick env s = Inr s' \<longrightarrow>
      (state s' = WAITING_INIT_PTS \<longleftrightarrow>
         (\<exists>s1 td frag. idle_choose env s = Inr (Chosen s1 td frag) \<and> \<not> encrypted frag
             \<and> (audioSwitch s \<or> getState env frag = NOT_LOADED) \<and> sn frag \<noteq> InitSegmentSN
             \<and> initSegment td = None \<and> \<not> isFinite (initPTS s (cc frag)))))
   \<and> (state s = WAITING_TRACK \<longrightarrow>
         doTick env s = Inr (if track_loaded s then s\<lparr>state := WAITING_INIT_PTS\<rparr> else s))
   \<and> (state s \<notin> {IDLE, WAITING_TRACK, WAITING_INIT_PTS} \<and> doTick env s = Inr s' \<longrightarrow>
         state s' \<noteq> WAITING_INIT_PTS)
   \<and> (state s = WAITING_INIT_PTS \<longrightarrow>
         doTick env s = Inr (if isFinite (initPTS s (videoTrackCC s)) then s\<lparr>state := IDLE\<rparr> else s))
   \<and> (state s = WAITING_INIT_PTS \<longrightarrow>
         onInitPtsFound env vfrag v s =
           Inr (s\<lparr>initPTS := (initPTS s)(cc vfrag \<mapsto> v), videoTrackCC := cc vfrag,
                  state := (if isFinite (Some v) then IDLE else WAITING_INIT_PTS)\<rparr>))"
proof -
  have a: "state s = IDLE \<and> doTick env s = Inr s' \<longrightarrow>
      (state s' = WAITING_INIT_PTS \<longleftrightarrow>
         (\<exists>s1 td frag. idle_choose env s = Inr (Chosen s1 td frag) \<and> \<not> encrypted frag
             \<and> (audioSwitch s \<or> getState env frag = NOT_LOADED) \<and> sn frag \<noteq> InitSegmentSN
             \<and> initSegment td = None \<and> \<not> isFinite (initPTS s (cc frag))))"
  proof (intro impI, elim conjE)
    assume st: "state s = IDLE" and r: "doTick env s = Inr s'"
    show "state s' = WAITING_INIT_PTS \<longleftrightarrow>
         (\<exists>s1 td frag. idle_choose env s = Inr (Chosen s1 td frag) \<and> \<not> encrypted frag
             \<and> (audioSwitch s \<or> getState env frag = NOT_LOADED) \<and> sn frag \<noteq> InitSegmentSN
             \<and> initSegment td = None \<and> \<not> isFinite (initPTS s (cc frag)))"
    proof (cases "idle_choose env s")
      case (Inl e)
      with st r show ?thesis by (simp add: doTick_def)
    next
      case (Inr c)
      show ?thesis
      proof (cases c)
        case (Tick_done s1)
        with st r Inr have "s' = s1" by (simp add: doTick_def)
        moreover have "state s1 \<noteq> WAITING_INIT_PTS"
          using idle_choose_Tick_done Inr Tick_done st by blast
        ultimately show ?thesis using Inr Tick_done by simp
      next
        case (Chosen s1 td frag)
        with st r Inr have s': "s' = idle_loadFrag env (audioSwitch s) td frag s1"
          by (simp add: doTick_def)
        have k: "state s1 = IDLE" "initPTS s1 = initPTS s"
          using idle_choose_Chosen Inr Chosen st by auto
        show ?thesis
          unfolding s' idle_loadFrag_waits [OF k(1)] k(2)
          using Inr Chosen by simp
      qed
    qed
  qed
  have b: "state s = WAITING_TRACK \<longrightarrow>
         doTick env s = Inr (if track_loaded s then s\<lparr>state := WAITING_INIT_PTS\<rparr> else s)"
    by (simp add: doTick_def track_loaded_def split: option.splits)
  have c: "state s \<notin> {IDLE, WAITING_TRACK, WAITING_INIT_PTS} \<and> doTick env s = Inr s' \<longrightarrow>
         state s' \<noteq> WAITING_INIT_PTS"
    by (cases "state s") (auto simp: doTick_def Let_def split: if_splits)
  have d: "state s = WAITING_INIT_PTS \<longrightarrow>
         doTick env s = Inr (if isFinite (initPTS s (videoTrackCC s)) then s\<lparr>state := IDLE\<rparr> else s)"
    by (simp add: doTick_def)
  have e: "state s = WAITING_INIT_PTS \<longrightarrow>
         onInitPtsFound env vfrag v s =
           Inr (s\<lparr>initPTS := (initPTS s)(cc vfrag \<mapsto> v), videoTrackCC := cc vfrag,
                  state := (if isFinite (Some v) then IDLE else WAITING_INIT_PTS)\<rparr>)"
    by (cases v) (simp_all add: onInitPtsFound_def asc_tick_def doTick_def Let_def)
  from a b c d e show ?thesis by blast
qed

text \<open>The theorem of claim C7 at a concrete input.\<close>

theorem waiting_init_pts_witness:
  "onInitPtsFound ex_env (ex_audio_frag 1) (Num 900) (ex_asc WAITING_INIT_PTS)
     = Inr ((ex_asc WAITING_INIT_PTS)\<lparr>initPTS := [1 \<mapsto> Num 900], videoTrackCC := 1,
                                       state := IDLE\<rparr>)
   \<and> doTick ex_env (ex_asc WAITING_INIT_PTS) = Inr (ex_asc WAITING_INIT_PTS)"
proof -
  have st: "state (ex_asc WAITING_INIT_PTS) = WAITING_INIT_PTS" by (simp add: ex_asc_def)
  note th = waiting_init_pts_transitions [of "ex_asc WAITING_INIT_PTS" ex_env _ "ex_audio_frag 1" "Num 900"]
  from th st have a: "onInitPtsFound ex_env (ex_audio_frag 1) (Num 900) (ex_asc WAITING_INIT_PTS) =
           Inr ((ex_asc WAITING_INIT_PTS)\<lparr>initPTS := (initPTS (ex_asc WAITING_INIT_PTS))(cc (ex_audio_frag 1) \<mapsto> Num 900),
                  videoTrackCC := cc (ex_audio_frag 1),
                  state := (if isFinite (Some (Num 900)) then IDLE else WAITING_INIT_PTS)\<rparr>)"
    by blast
  from th st have b: "doTick ex_env (ex_asc WAITING_INIT_PTS) =
      Inr (if isFinite (initPTS (ex_asc WAITING_INIT_PTS) (videoTrackCC (ex_asc WAITING_INIT_PTS)))
           then (ex_asc WAITING_INIT_PTS)\<lparr>state := IDLE\<rparr> else ex_asc WAITING_INIT_PTS)"
    by blast
  from a b show ?thesis by (simp add: ex_asc_def ex_audio_frag_def)
qed

section \<open>Properties of the AAC demuxer\<close>

subsection \<open>Auxiliary facts\<close>

lemmas aac_eval =
  demux_def demux_loop.simps ID3_getID3Data_def ID3_tagsLength.simps ID3_isHeader_def
  ADTS_isHeader_def ADTS_isHeaderPattern_def ADTS_getFullFrameLength_def ADTS_getHeaderLength_def
  ADTS_appendFrame_def ADTS_parseFrameHeader_def ADTS_initTrackConfig_def ADTS_getFrameDuration_def
  byte_at_def slice_from_def subarray_def Let_def nth_append

lemma ex_frame_header:
  "ADTS_isHeader (ex_frame p q) 0"
  "ADTS_getFullFrameLength (ex_frame p q) 0 = 9"
  "ADTS_getHeaderLength (ex_frame p q) 0 = 7"
  "\<not> ID3_isHeader (ex_frame p q) 0"
  by (simp_all add: ex_frame_def ADTS_isHeader_def ADTS_isHeaderPattern_def byte_at_def
        ADTS_getFullFrameLength_def ADTS_getHeaderLength_def ID3_isHeader_def)

text \<open>
  The loop parses a frame only when its length is strictly below the number of bytes left: a
  frame that ends exactly at the end of the buffer is put into the cache, and no sample is made.
\<close>

lemma demux_loop_exact_fit:
  assumes "ADTS_getFullFrameLength data offset = length data - offset"
    and "offset \<le> length data"
    and "\<not> ID3_isHeader data offset"
  shows "demux_loop data pts0 offset d = Inr (d\<lparr>cachedData := slice_from data offset\<rparr>)"
  using assms by (subst demux_loop.simps) simp

subsection \<open>Chunked input\<close>

text \<open>
  Claim C1. Bytes left over at the end of a call are cached and prepended to the next input, so
  that a payload cut into chunks gives the samples of the whole payload; two complete frames
  followed by three header bytes of a third give two samples, and the call carrying the rest of
  the third frame gives the third sample.

  The code caches the three bytes and prepends them, and no byte is lost or duplicated: the
  second call works on the nine bytes of the third frame. It emits no sample for them, though.
  The frame length 9 is not strictly below the 9 bytes left, so the complete frame goes back
  into the cache, and the track still holds the two samples of the first call. \<open>flush\<close> resets
  the frame index only; the last frame of a stream is never emitted.
\<close>

theorem demux_trailing_frame_cached:
  "demux getTimeStamp ex_chunk1 0 ex_demuxer =
     Inr \<lparr>audioTrack = \<lparr>samplerate = 44100, manifestCodec = None,
             samples = [\<lparr>unit = [0x11, 0x12],
                         pts = (case getTimeStamp [] of Some ts \<Rightarrow> ts * 90 | None \<Rightarrow> 0),
                         dts = (case getTimeStamp [] of Some ts \<Rightarrow> ts * 90 | None \<Rightarrow> 0)\<rparr>,
                        \<lparr>unit = [0x21, 0x22],
                         pts = (case getTimeStamp [] of Some ts \<Rightarrow> ts * 90 | None \<Rightarrow> 0)
                               + 1024 * 90000 / 44100,
                         dts = (case getTimeStamp [] of Some ts \<Rightarrow> ts * 90 | None \<Rightarrow> 0)
                               + 1024 * 90000 / 44100\<rparr>]\<rparr>,
          frameIndex = 2, cachedData = [0xFF, 0xF1, 0x50]\<rparr>
   \<and> demux getTimeStamp ex_chunk2 0
        \<lparr>audioTrack = \<lparr>samplerate = 44100, manifestCodec = None, samples = smps\<rparr>,
         frameIndex = 2, cachedData = [0xFF, 0xF1, 0x50]\<rparr>
       = Inr \<lparr>audioTrack = \<lparr>samplerate = 44100, manifestCodec = None, samples = smps\<rparr>,
              frameIndex = 2, cachedData = ex_frame 0x31 0x32\<rparr>
   \<and> [0xFF, 0xF1, 0x50] @ ex_chunk2 = ex_frame 0x31 0x32"
  by (simp add: aac_eval ex_chunk1_def ex_chunk2_def ex_frame_def ex_demuxer_def
        split: option.splits)

theorem demux_trailing_frame_cached_witness:
  "\<exists>d1 d2. demux (\<lambda>tag. None) ex_chunk1 0 ex_demuxer = Inr d1
     \<and> demux (\<lambda>tag. None) ex_chunk2 0 d1 = Inr d2
     \<and> map unit (samples (audioTrack d1)) = [[0x11, 0x12], [0x21, 0x22]]
     \<and> cachedData d1 = [0xFF, 0xF1, 0x50]
     \<and> samples (audioTrack d2) = samples (audioTrack d1)
     \<and> cachedData d2 = ex_frame 0x31 0x32
     \<and> samples (audioTrack (flush d2)) = samples (audioTrack d1)
     \<and> cachedData (flush d2) = ex_frame 0x31 0x32"
proof -
  let ?s1 = "\<lparr>unit = [0x11, 0x12], pts = 0, dts = 0\<rparr> :: aac_sample"
  let ?s2 = "\<lparr>unit = [0x21, 0x22], pts = 0 + 1024 * 90000 / 44100,
              dts = 0 + 1024 * 90000 / 44100\<rparr> :: aac_sample"
  let ?t = "\<lparr>samplerate = 44100, manifestCodec = None, samples = [?s1, ?s2]\<rparr>"
  let ?d1 = "\<lparr>audioTrack = ?t, frameIndex = 2, cachedData = [0xFF, 0xF1, 0x50]\<rparr>"
  let ?d2 = "\<lparr>audioTrack = ?t, frameIndex = 2, cachedData = ex_frame 0x31 0x32\<rparr>"
  note t = demux_trailing_frame_cached [where getTimeStamp = "\<lambda>tag. None"
      and smps = "[?s1, ?s2]"]
  have a: "demux (\<lambda>tag. None) ex_chunk1 0 ex_demuxer = Inr ?d1"
    using t [THEN conjunct1] by simp
  have b: "demux (\<lambda>tag. None) ex_chunk2 0 ?d1 = Inr ?d2"
    using t [THEN conjunct2, THEN conjunct1] .
  show ?thesis
  proof (rule exI [where x = ?d1], rule exI [where x = ?d2], intro conjI)
    show "demux (\<lambda>tag. None) ex_chunk1 0 ex_demuxer = Inr ?d1" by (rule a)
    show "demux (\<lambda>tag. None) ex_chunk2 0 ?d1 = Inr ?d2" by (rule b)
  qed (simp_all add: flush_def)
qed

end
